theory Spec2Isabelle
  imports Main "HOL-Library.Word"
begin

unbundle bit_operations_syntax

section \<open>Constants and integer helpers\<close>

text \<open>
  Modelled from the spec: \<open>PAGE_SIZE\<close> is \<open>RSM_PAGE_SIZE\<close> of \<open>rsm.h\<close>, which is not
  part of the sources at hand; the specification gives it as a power of two, typically 4096.
\<close>

definition PAGE_SIZE_BITS :: nat where
  "PAGE_SIZE_BITS = 12"

definition PAGE_SIZE :: nat where
  "PAGE_SIZE = 2 ^ PAGE_SIZE_BITS"

text \<open>\<open>#define MAX_ORDER 20\<close> (mem_mm.c).\<close>

definition MAX_ORDER :: nat where
  "MAX_ORDER = 20"

definition MAX_ORDER_NPAGES :: nat where
  "MAX_ORDER_NPAGES = 2 ^ MAX_ORDER"

text \<open>
  \<open>uintptr\<close> and \<open>usize\<close> are 64 bits wide. Addresses and sizes are natural numbers;
  where the C arithmetic can wrap, the wrap-around is written out with \<open>u64\<close>.
\<close>

definition UINTPTR_MAX :: nat where
  "UINTPTR_MAX = 2 ^ 64 - 1"

definition u64 :: "nat \<Rightarrow> nat" where
  "u64 x = x mod 2 ^ 64"

text \<open>Unsigned 64-bit subtraction \<open>a - b\<close>.\<close>

definition usub :: "nat \<Rightarrow> nat \<Rightarrow> nat" where
  "usub a b = (a + 2 ^ 64 - b mod 2 ^ 64) mod 2 ^ 64"

text \<open>\<open>IS_POW2(x) = ((x & (x - 1)) == 0)\<close>; for \<open>x = 0\<close> the C expression is \<open>0 & ~0\<close>.\<close>

definition IS_POW2 :: "nat \<Rightarrow> bool" where
  "IS_POW2 x = (x AND usub x 1 = 0)"

text \<open>\<open>IS_ALIGN2(x, a) = !(x & (a - 1))\<close>.\<close>

definition IS_ALIGN2 :: "nat \<Rightarrow> nat \<Rightarrow> bool" where
  "IS_ALIGN2 x a = (x AND usub a 1 = 0)"

section \<open>Physical memory manager (mem_mm.c)\<close>

text \<open>
  \<open>rmm_t\<close>. The per-order bitsets are sets of bit indices, the per-order free lists are
  lists of block pointers (the list nodes of \<open>ilist_t\<close> live in the free blocks themselves).
  The mutex is not modelled.
\<close>

record rmm =
  start_addr :: nat
  end_addr :: nat
  free_size :: nat
  bitsets :: "nat \<Rightarrow> nat set"
  freelists :: "nat \<Rightarrow> nat list"

datatype rmm_error =
  AssertFail    \<comment> \<open>an \<open>assert\<close> or \<open>safecheckf\<close> of the source fails (\<open>_panic\<close>)\<close>
| ListCorrupt   \<comment> \<open>\<open>ilist_del\<close> of a block that is on no free list\<close>
| IntOverflow   \<comment> \<open>a bit index that does not fit the \<open>int\<close> the source stores it in\<close>

text \<open>
  Modelled from the spec: \<open>list.h\<close> is not part of the sources at hand. \<open>ilist_append\<close>
  links an entry at the tail, \<open>ilist_pop\<close> unlinks and returns the tail entry or returns
  \<open>NULL\<close> for an empty list, \<open>ilist_del\<close> unlinks an entry from the list it is on.
\<close>

definition ilist_append :: "nat list \<Rightarrow> nat \<Rightarrow> nat list" where
  "ilist_append l entry = l @ [entry]"

definition ilist_pop :: "nat list \<Rightarrow> nat \<times> nat list" where
  "ilist_pop l = (if l = [] then (0, []) else (last l, butlast l))"

definition ilist_linked :: "rmm \<Rightarrow> nat \<Rightarrow> bool" where
  "ilist_linked mm entry = (\<exists>k \<in> {0..MAX_ORDER}. entry \<in> set (freelists mm k))"

definition ilist_del :: "rmm \<Rightarrow> nat \<Rightarrow> rmm" where
  "ilist_del mm entry = mm\<lparr>freelists := (\<lambda>k. removeAll entry (freelists mm k))\<rparr>"

definition bit_get :: "rmm \<Rightarrow> nat \<Rightarrow> nat \<Rightarrow> bool" where
  "bit_get mm order b = (b \<in> bitsets mm order)"

definition bit_set :: "rmm \<Rightarrow> nat \<Rightarrow> nat \<Rightarrow> rmm" where
  "bit_set mm order b = mm\<lparr>bitsets := (bitsets mm)(order := insert b (bitsets mm order))\<rparr>"

definition bit_clear :: "rmm \<Rightarrow> nat \<Rightarrow> nat \<Rightarrow> rmm" where
  "bit_clear mm order b = mm\<lparr>bitsets := (bitsets mm)(order := bitsets mm order - {b})\<rparr>"

definition freelist_append :: "rmm \<Rightarrow> nat \<Rightarrow> nat \<Rightarrow> rmm" where
  "freelist_append mm order entry =
     mm\<lparr>freelists := (freelists mm)(order := ilist_append (freelists mm order) entry)\<rparr>"

text \<open>The tail of \<open>rmm_allocpages1\<close>: compute the bit, assert it is clear, set it.\<close>

definition alloc_mark :: "rmm \<Rightarrow> nat \<Rightarrow> nat \<Rightarrow> rmm_error + (nat \<times> rmm)" where
  "alloc_mark mm order addr =
     (let b = addr div (PAGE_SIZE * 2 ^ order) in
      if bit_get mm order b then Inl AssertFail
      else Inr (addr, bit_set mm order b))"

text \<open>
  \<open>rmm_allocpages1\<close>: the result is the block's offset from \<open>start_addr\<close>, or
  \<open>UINTPTR_MAX\<close>.
\<close>

function rmm_allocpages1 :: "rmm \<Rightarrow> nat \<Rightarrow> rmm_error + (nat \<times> rmm)" where
  "rmm_allocpages1 mm order =
     (if order > MAX_ORDER then Inr (UINTPTR_MAX, mm)
      else
        let (p, l) = ilist_pop (freelists mm order);
            mm1 = mm\<lparr>freelists := (freelists mm)(order := l)\<rparr>
        in if p \<noteq> 0 then alloc_mark mm1 order (usub p (start_addr mm1))
           else
             (case rmm_allocpages1 mm1 (order + 1) of
                Inl e \<Rightarrow> Inl e
              | Inr (addr, mm2) \<Rightarrow>
                  if addr = UINTPTR_MAX then Inr (UINTPTR_MAX, mm2)
                  else
                    let buddy1 = u64 (addr + start_addr mm2);
                        buddy2 = u64 (buddy1 + PAGE_SIZE * 2 ^ order)
                    in alloc_mark (freelist_append mm2 order buddy2) order addr))"
  by pat_completeness auto
termination
  by (relation "measure (\<lambda>(mm, order). Suc MAX_ORDER - order)") auto

declare rmm_allocpages1.simps [simp del]

text \<open>The loop of \<open>rmm_allocpages\<close> that counts the trailing zero bits of \<open>npages\<close>.\<close>

function order_loop :: "nat \<Rightarrow> nat \<Rightarrow> nat" where
  "order_loop n order =
     (if n \<noteq> 0 \<and> \<not> odd n then order_loop (n div 2) (order + 1) else order)"
  by pat_completeness auto
termination
  by (relation "measure (\<lambda>(n, order). n)") auto

declare order_loop.simps [simp del]

text \<open>\<open>rmm_allocpages\<close>: the result is the pointer (0 is \<open>NULL\<close>) and the new state.\<close>

definition rmm_allocpages :: "rmm \<Rightarrow> nat \<Rightarrow> rmm_error + (nat \<times> rmm)" where
  "rmm_allocpages mm npages =
     (if npages = 0 then Inr (0, mm)
      else if \<not> IS_POW2 npages then Inl AssertFail
      else
        case rmm_allocpages1 mm (order_loop npages 0) of
          Inl e \<Rightarrow> Inl e
        | Inr (addr, mm1) \<Rightarrow>
            if addr = UINTPTR_MAX then Inr (0, mm1)
            else Inr (u64 (addr + start_addr mm1),
                      mm1\<lparr>free_size := usub (free_size mm1) (u64 (npages * PAGE_SIZE))\<rparr>))"

text \<open>
  \<open>rmm_freepages1\<close>: the result is the order the block was found at, or -1.
\<close>

function rmm_freepages1 :: "rmm \<Rightarrow> nat \<Rightarrow> nat \<Rightarrow> rmm_error + (int \<times> rmm)" where
  "rmm_freepages1 mm addr order =
     (if order > MAX_ORDER then Inr (- 1, mm)
      else
        let size = PAGE_SIZE * 2 ^ order;
            b = addr div size
        in if b \<ge> 2 ^ 31 then Inl IntOverflow
           else if \<not> bit_get mm order b then rmm_freepages1 mm addr (order + 1)
           else
             let buddy_addr = addr XOR size;
                 buddy_bit = buddy_addr div size;
                 mm1 = bit_clear mm order b
             in if buddy_bit \<ge> 2 ^ 31 then Inl IntOverflow
                else if \<not> bit_get mm1 order buddy_bit then
                  (let buddy = u64 (buddy_addr + start_addr mm1)
                   in if \<not> ilist_linked mm1 buddy then Inl ListCorrupt
                      else
                        case rmm_freepages1 (ilist_del mm1 buddy)
                               (if buddy_addr > addr then addr else buddy_addr) (order + 1) of
                          Inl e \<Rightarrow> Inl e
                        | Inr (r, mm2) \<Rightarrow> Inr (int order, mm2))
                else Inr (int order, freelist_append mm1 order (u64 (addr + start_addr mm1))))"
  by pat_completeness auto
termination
  by (relation "measure (\<lambda>(mm, addr, order). Suc MAX_ORDER - order)") auto

declare rmm_freepages1.simps [simp del]

definition rmm_freepages :: "rmm \<Rightarrow> nat \<Rightarrow> rmm_error + rmm" where
  "rmm_freepages mm ptr =
     (if \<not> IS_ALIGN2 ptr PAGE_SIZE then Inl AssertFail
      else
        case rmm_freepages1 mm (usub ptr (start_addr mm)) 0 of
          Inl e \<Rightarrow> Inl e
        | Inr (order, mm1) \<Rightarrow>
            if order \<ge> 0
            then Inr (mm1\<lparr>free_size := u64 (free_size mm1 + PAGE_SIZE * 2 ^ nat order)\<rparr>)
            else Inr mm1)"


text \<open>\<open>ALIGN2(x, a) = (x + (a - 1)) & ~(a - 1)\<close>; clearing the bits of \<open>m\<close> in \<open>y\<close> is
  \<open>y - (y AND m)\<close>.\<close>

definition ALIGN2 :: "nat \<Rightarrow> nat \<Rightarrow> nat" where
  "ALIGN2 x a = (let atmp = usub a 1; y = u64 (x + atmp) in y - (y AND atmp))"

text \<open>\<open>ALIGN2_FLOOR(x, a) = ((x - (atmp - 1)) + atmp) & ~atmp\<close> with \<open>atmp = a - 1\<close>, as the
  macro is written.\<close>

definition ALIGN2_FLOOR :: "nat \<Rightarrow> nat \<Rightarrow> nat" where
  "ALIGN2_FLOOR x a =
     (let atmp = usub a 1; y = u64 (usub x (usub atmp 1) + atmp) in y - (y AND atmp))"

text \<open>
  Modelled from the spec: \<open>FLOOR_POW2\<close> calls \<open>_rsm_floor_pow2_64\<close>, which is declared but
  not defined in the sources at hand; it rounds down to the nearest power of two and returns 1
  for 0.
\<close>

fun FLOOR_POW2 :: "nat \<Rightarrow> nat" where
  "FLOOR_POW2 x = (if x \<le> 1 then 1 else 2 * FLOOR_POW2 (x div 2))"

declare FLOOR_POW2.simps [simp del]

text \<open>\<open>for (usize n = npages; n; n >>= 1) order++;\<close> starting from \<open>order = -1\<close>.\<close>

function seed_order_loop :: "nat \<Rightarrow> int \<Rightarrow> int" where
  "seed_order_loop n order = (if n \<noteq> 0 then seed_order_loop (n div 2) (order + 1) else order)"
  by pat_completeness auto
termination
  by (relation "measure (\<lambda>(n, order). n)") auto

declare seed_order_loop.simps [simp del]

text \<open>\<open>BITSET_SIZE(order)\<close> and the loop that adds the sizes up.\<close>

definition BITSET_SIZE :: "nat \<Rightarrow> nat \<Rightarrow> nat" where
  "BITSET_SIZE bset_nbytes order = bset_nbytes div 2 ^ order + 2"

fun bset_total_loop :: "nat \<Rightarrow> nat \<Rightarrow> nat" where
  "bset_total_loop bset_nbytes 0 = bset_nbytes + 2"
| "bset_total_loop bset_nbytes (Suc order) =
     bset_total_loop bset_nbytes order + BITSET_SIZE bset_nbytes (Suc order)"

text \<open>The loop of \<open>rmm_create\<close> that puts the initially free blocks on the free lists.\<close>

function rmm_seed :: "rmm \<Rightarrow> nat \<Rightarrow> nat \<Rightarrow> rmm_error + rmm" where
  "rmm_seed mm start npages_total =
     (if npages_total = 0 then Inr mm
      else
        let npages = min (FLOOR_POW2 npages_total) MAX_ORDER_NPAGES in
        if \<not> npages > 0 then Inl AssertFail
        else
          let order = seed_order_loop npages (- 1) in
          if \<not> order \<le> int MAX_ORDER then Inl AssertFail
          else
            let block_size = PAGE_SIZE * 2 ^ nat order;
                mm1 = freelist_append mm (nat order) start;
                b = usub start (start_addr mm1) div block_size;
                mm2 = bit_clear mm1 (nat order) b;
                mm3 = bit_set mm2 (nat order) (b + 1)
            in rmm_seed mm3 (u64 (start + block_size)) (npages_total - npages))"
  by pat_completeness auto
termination
  by (relation "measure (\<lambda>(mm, start, npages_total). npages_total)") auto

declare rmm_seed.simps [simp del]

text \<open>
  \<open>rmm_create\<close>. \<open>sizeof_rmm\<close> and \<open>alignof_rmm\<close> stand for \<open>sizeof(rmm_t)\<close> and
  \<open>_Alignof(rmm_t)\<close>, which depend on the mutex type. \<open>Inr None\<close> is the \<open>NULL\<close> of the
  out-of-memory exit.
\<close>

definition rmm_create :: "nat \<Rightarrow> nat \<Rightarrow> nat \<Rightarrow> nat \<Rightarrow> rmm_error + rmm option" where
  "rmm_create sizeof_rmm alignof_rmm memp memsize =
     (let start = ALIGN2 memp PAGE_SIZE;
          end = u64 (memp + memsize);
          mm_addr = ALIGN2_FLOOR (usub end sizeof_rmm) alignof_rmm
      in if mm_addr < start then Inr None
         else
           let memsize1 = mm_addr - start;
               nchunks = memsize1 div PAGE_SIZE;
               bset_nbytes = nchunks div 8;
               bset_total_size = bset_total_loop bset_nbytes MAX_ORDER
           in if memsize1 < u64 (bset_total_size + PAGE_SIZE) then Inr None
              else
                let memsize2 = ALIGN2_FLOOR (memsize1 - u64 (bset_total_size + PAGE_SIZE)) PAGE_SIZE
                in if memsize2 = 0 then Inr None
                   else
                     case rmm_seed
                            \<lparr>start_addr = start, end_addr = u64 (start + memsize2),
                               free_size = memsize2, bitsets = (\<lambda>order. {}),
                               freelists = (\<lambda>order. [])\<rparr>
                            start (memsize2 div PAGE_SIZE) of
                       Inl e \<Rightarrow> Inl e
                     | Inr mm \<Rightarrow> Inr (Some mm))"

text \<open>
  Well-formed states: the managed range is a non-null range of 64-bit addresses, every entry of
  a free list is the page-aligned address of a block inside it, and \<open>free_size\<close> covers at
  least the blocks on the free lists.
\<close>

fun listed_pages :: "(nat \<Rightarrow> nat list) \<Rightarrow> nat \<Rightarrow> nat" where
  "listed_pages fl 0 = length (fl 0)"
| "listed_pages fl (Suc k) = 2 ^ Suc k * length (fl (Suc k)) + listed_pages fl k"

definition rmm_wf :: "rmm \<Rightarrow> bool" where
  "rmm_wf mm \<longleftrightarrow>
     0 < start_addr mm \<and> end_addr mm < 2 ^ 64 \<and> free_size mm < 2 ^ 64 \<and>
     (\<forall>k \<le> MAX_ORDER. \<forall>p \<in> set (freelists mm k).
        start_addr mm \<le> p \<and> p + PAGE_SIZE * 2 ^ k \<le> end_addr mm \<and>
        PAGE_SIZE dvd (p - start_addr mm)) \<and>
     PAGE_SIZE * listed_pages (freelists mm) MAX_ORDER \<le> free_size mm"

text \<open>A successful result of \<open>rmm_allocpages1\<close>: the offset of a block that was on a free list
  of the requested or a higher order.\<close>

definition alloc1_ok :: "rmm \<Rightarrow> nat \<Rightarrow> nat \<Rightarrow> rmm \<Rightarrow> bool" where
  "alloc1_ok mm order addr mm' \<longleftrightarrow>
     addr \<noteq> UINTPTR_MAX \<and> free_size mm' = free_size mm \<and> start_addr mm' = start_addr mm \<and>
     (\<exists>j p. order \<le> j \<and> j \<le> MAX_ORDER \<and> p \<in> set (freelists mm j) \<and>
        addr = p - start_addr mm)"

text \<open>A sequence of calls on one memory manager; the first error ends the run.\<close>

datatype rmm_op = Alloc nat | Free nat

fun rmm_run :: "rmm \<Rightarrow> rmm_op list \<Rightarrow> rmm_error + rmm" where
  "rmm_run mm [] = Inr mm"
| "rmm_run mm (Alloc npages # ops) =
     (case rmm_allocpages mm npages of Inl e \<Rightarrow> Inl e | Inr (p, mm') \<Rightarrow> rmm_run mm' ops)"
| "rmm_run mm (Free ptr # ops) =
     (case rmm_freepages mm ptr of Inl e \<Rightarrow> Inl e | Inr mm' \<Rightarrow> rmm_run mm' ops)"

text \<open>
  Two concrete managers: the state \<open>rmm_create\<close> builds over the 53248 bytes at address 4096
  (11 usable pages: blocks of 8, 2 and 1 pages), and the state it builds over
  \<open>2 ^ 33 + 529000\<close> bytes at address 65536 (\<open>2 ^ 21\<close> usable pages: two blocks of order
  \<open>MAX_ORDER\<close>); \<open>sizeof(rmm_t)\<close> is taken as 544 and its alignment as 8.
\<close>

definition rmm_example :: rmm where
  "rmm_example =
     \<lparr>start_addr = 4096, end_addr = 49152, free_size = 45056,
      bitsets = (\<lambda>order. {})(3 := {1}, 1 := {5}, 0 := {11}),
      freelists = (\<lambda>order. [])(3 := [4096], 1 := [36864], 0 := [45056])\<rparr>"

definition rmm_example_big :: rmm where
  "rmm_example_big =
     \<lparr>start_addr = 65536, end_addr = 8590000128, free_size = 8589934592,
      bitsets = (\<lambda>order. {})(20 := {2}),
      freelists = (\<lambda>order. [])(20 := [65536, 4295032832])\<rparr>"

section \<open>Virtual memory: translation cache (vm.c)\<close>

text \<open>
  Virtual and host addresses are 64-bit words (\<open>u64\<close>, \<open>uintptr\<close>).

  Modelled from the spec: \<open>vm.h\<close> is not part of the sources at hand. Its macros are taken
  from the specification: the page mask clears the low \<open>PAGE_SIZE_BITS\<close> bits (the test in
  vm.c computes \<open>VM_PAGE_ADDR(vaddr)\<close> as \<open>vaddr & VM_ADDR_PAGE_MASK\<close>), the offset mask keeps
  them, \<open>VM_VFN\<close> is the address shifted right by \<open>PAGE_SIZE_BITS\<close>, the cache is keyed by
  \<open>VFN mod VM_CACHE_LEN\<close>, and \<open>VM_CACHE_ENTRY\<close> is the entry at that index. The specification
  gives no value for \<open>VM_CACHE_LEN\<close>; the statements below name the constant
  \<open>VM_CACHE_INDEX_BITS\<close> and only the example at alignment \<open>2 ^ 21\<close> uses the value chosen
  here, 256 entries.
\<close>

definition VM_ADDR_PAGE_MASK :: "64 word" where
  "VM_ADDR_PAGE_MASK = NOT 0 XOR (of_nat PAGE_SIZE - 1)"

definition VM_ADDR_OFFS_MASK :: "64 word" where
  "VM_ADDR_OFFS_MASK = push_bit PAGE_SIZE_BITS 1 - 1"

definition VM_CACHE_INDEX_BITS :: nat where
  "VM_CACHE_INDEX_BITS = 8"

definition VM_CACHE_INDEX_VFN_MASK :: "64 word" where
  "VM_CACHE_INDEX_VFN_MASK = push_bit VM_CACHE_INDEX_BITS 1 - 1"

definition VM_VFN :: "64 word \<Rightarrow> 64 word" where
  "VM_VFN vaddr = drop_bit PAGE_SIZE_BITS vaddr"

definition VM_PAGE_ADDR :: "64 word \<Rightarrow> 64 word" where
  "VM_PAGE_ADDR vaddr = vaddr AND VM_ADDR_PAGE_MASK"

definition VM_ADDR_OFFSET :: "64 word \<Rightarrow> 64 word" where
  "VM_ADDR_OFFSET vaddr = vaddr AND VM_ADDR_OFFS_MASK"

text \<open>\<open>vm_cache_ent_t\<close> and \<open>vm_cache_t\<close>; the array of entries is a function of the index.\<close>

record vm_cache_ent =
  haddr_diff :: "64 word"
  tag :: "64 word"

record vm_cache =
  entries :: "64 word \<Rightarrow> vm_cache_ent"

datatype vm_error =
  VmAssertFail  \<comment> \<open>an \<open>assert\<close> or \<open>assertf\<close> of the source fails\<close>
| VmPanic       \<comment> \<open>a \<open>panic\<close> of the source\<close>

text \<open>\<open>IS_ALIGN2\<close> on 64-bit words.\<close>

definition IS_ALIGN2_u64 :: "64 word \<Rightarrow> 64 word \<Rightarrow> bool" where
  "IS_ALIGN2_u64 x a = (x AND (a - 1) = 0)"

text \<open>\<open>vm_cache_init\<close> and \<open>vm_cache_invalidate\<close> fill the cache with \<open>0xff\<close> bytes.\<close>

definition vm_cache_ent_invalid :: vm_cache_ent where
  "vm_cache_ent_invalid = \<lparr>haddr_diff = - 1, tag = - 1\<rparr>"

definition vm_cache_init :: vm_cache where
  "vm_cache_init = \<lparr>entries = (\<lambda>i. vm_cache_ent_invalid)\<rparr>"

definition vm_cache_invalidate :: "vm_cache \<Rightarrow> vm_cache" where
  "vm_cache_invalidate cache = \<lparr>entries = (\<lambda>i. vm_cache_ent_invalid)\<rparr>"

definition VM_CACHE_ENTRY :: "64 word \<Rightarrow> 64 word" where
  "VM_CACHE_ENTRY vaddr = VM_VFN vaddr AND VM_CACHE_INDEX_VFN_MASK"

text \<open>
  Modelled from the spec: \<open>vm_cache_invalidate_one\<close> is defined in \<open>vm.h\<close>; it clears the
  single entry at \<open>VFN(vaddr) mod VM_CACHE_LEN\<close>, and a cleared entry is all-ones.
\<close>

definition vm_cache_invalidate_one :: "vm_cache \<Rightarrow> 64 word \<Rightarrow> vm_cache" where
  "vm_cache_invalidate_one cache vaddr =
     cache\<lparr>entries := (entries cache)(VM_CACHE_ENTRY vaddr := vm_cache_ent_invalid)\<rparr>"

text \<open>\<open>vm_cache_lookup\<close>: 0 on a miss, else the host address.\<close>

definition vm_cache_lookup :: "vm_cache \<Rightarrow> 64 word \<Rightarrow> 64 word \<Rightarrow> 64 word" where
  "vm_cache_lookup cache vaddr alignment =
     (let index = VM_VFN vaddr AND VM_CACHE_INDEX_VFN_MASK;
          actual_tag = tag (entries cache index);
          expected_tag = vaddr AND (VM_ADDR_PAGE_MASK XOR (alignment - 1));
          is_valid = (if actual_tag = expected_tag then 1 else 0)
      in (haddr_diff (entries cache index) + vaddr) * is_valid)"

text \<open>\<open>vm_cache_add\<close>: returns \<open>haddr_diff\<close> and the updated cache.\<close>

definition vm_cache_add :: "vm_cache \<Rightarrow> 64 word \<Rightarrow> 64 word \<Rightarrow> vm_error + (64 word \<times> vm_cache)" where
  "vm_cache_add cache vpaddr hpaddr =
     (if \<not> IS_ALIGN2_u64 vpaddr (of_nat PAGE_SIZE) then Inl VmAssertFail
      else if \<not> IS_ALIGN2_u64 hpaddr (of_nat PAGE_SIZE) then Inl VmAssertFail
      else
        let entry = \<lparr>haddr_diff = hpaddr - vpaddr, tag = vpaddr\<rparr>
        in Inr (haddr_diff entry,
                cache\<lparr>entries := (entries cache)(VM_CACHE_ENTRY vpaddr := entry)\<rparr>))"

text \<open>The cache states reachable through the interface of vm.c.\<close>

inductive vm_cache_reachable :: "vm_cache \<Rightarrow> bool" where
  reach_init: "vm_cache_reachable vm_cache_init"
| reach_add: "vm_cache_reachable c \<Longrightarrow> vm_cache_add c vp hp = Inr (d, c') \<Longrightarrow> vm_cache_reachable c'"
| reach_invalidate: "vm_cache_reachable c \<Longrightarrow> vm_cache_reachable (vm_cache_invalidate c)"
| reach_invalidate_one: "vm_cache_reachable c \<Longrightarrow> vm_cache_reachable (vm_cache_invalidate_one c v)"

section \<open>Virtual memory: page directory and miss handler (vm.c)\<close>

text \<open>
  Modelled from the spec: the constants of \<open>vm.h\<close>. A page table is one page of 64-bit
  entries, so \<open>VM_PTAB_BITS = 9\<close> for 4096-byte pages; the VFN has
  \<open>VM_PTAB_LEVELS * VM_PTAB_BITS\<close> bits; \<open>VM_ADDR_MIN = PAGE_SIZE\<close>. The specification gives
  no value for \<open>VM_ADDR_BITS\<close> and \<open>VM_PTAB_LEVELS\<close>; no proof below depends on the values
  chosen here. A \<open>vm_pte_t\<close> is a 64-bit word whose only field is \<open>outaddr\<close>; the access
  tag \<open>vm_op_t\<close> is represented by its direction and its alignment.
\<close>

definition VM_ADDR_BITS :: nat where
  "VM_ADDR_BITS = 48"

definition VM_ADDR_MIN :: "64 word" where
  "VM_ADDR_MIN = push_bit PAGE_SIZE_BITS 1"

definition VM_ADDR_MAX :: "64 word" where
  "VM_ADDR_MAX = push_bit VM_ADDR_BITS 1 - 1"

definition VM_PTAB_BITS :: nat where
  "VM_PTAB_BITS = 9"

definition VM_PTAB_LEVELS :: "8 word" where
  "VM_PTAB_LEVELS = 4"

definition VM_PTAB_SIZE :: nat where
  "VM_PTAB_SIZE = 2 ^ VM_PTAB_BITS * 8"

definition VFN_BITS :: nat where
  "VFN_BITS = VM_ADDR_BITS - PAGE_SIZE_BITS"

text \<open>
  Modelled from the spec: whether \<open>VM_ZERO_PAGES\<close> is defined is decided outside vm.c; the
  specification has new page-table nodes zeroed.
\<close>

definition VM_ZERO_PAGES :: bool where
  "VM_ZERO_PAGES = True"

datatype vm_op_type = VM_OP_LOAD | VM_OP_STORE

record vm_op =
  VM_OP_TYPE :: vm_op_type
  VM_OP_ALIGNMENT :: "64 word"

text \<open>\<open>getbits(x, p, n) = (x >> (p+1-n)) & ~(~0llu << n)\<close>.\<close>

definition getbits :: "64 word \<Rightarrow> nat \<Rightarrow> nat \<Rightarrow> 64 word" where
  "getbits x p n = drop_bit (p + 1 - n) x AND NOT (push_bit n (NOT 0))"

text \<open>
  \<open>vm_pagedir_t\<close> together with the host memory that holds its page tables: \<open>hostmem\<close> maps
  the address of a page-table entry to the entry. The mutex is not modelled.
\<close>

record vm_pagedir =
  root :: "64 word"
  pagedir_mm :: rmm  \<comment> \<open>the field \<open>mm\<close>\<close>
  hostmem :: "64 word \<Rightarrow> 64 word"

datatype vm_fault =
  VmAssert              \<comment> \<open>an \<open>assert\<close> or \<open>assertf\<close> of vm.c fails\<close>
| VmPanicked            \<comment> \<open>a \<open>panic\<close> of vm.c\<close>
| VmMemoryManager rmm_error   \<comment> \<open>the memory manager aborts\<close>

text \<open>\<open>vm_ptab_create\<close>: the new table (0 is \<open>NULL\<close>) and the new state.\<close>

definition vm_ptab_create :: "vm_pagedir \<Rightarrow> vm_fault + (64 word \<times> vm_pagedir)" where
  "vm_ptab_create pd =
     (case rmm_allocpages (pagedir_mm pd) (VM_PTAB_SIZE div PAGE_SIZE) of
        Inl e \<Rightarrow> Inl (VmMemoryManager e)
      | Inr (p, mm') \<Rightarrow>
          let ptab = (of_nat p :: 64 word) in
          if ptab = 0 then Inr (0, pd\<lparr>pagedir_mm := mm'\<rparr>)
          else if VM_ZERO_PAGES then
            Inr (ptab, pd\<lparr>pagedir_mm := mm',
                         hostmem := (\<lambda>a. if a - ptab < of_nat VM_PTAB_SIZE then 0
                                         else hostmem pd a)\<rparr>)
          else Inr (ptab, pd\<lparr>pagedir_mm := mm'\<rparr>))"

text \<open>\<open>vm_pagedir_alloc_backing_page\<close>; \<open>pte\<close> is the address of the entry to fill.\<close>

definition vm_pagedir_alloc_backing_page ::
  "vm_pagedir \<Rightarrow> 64 word \<Rightarrow> vm_fault + (64 word \<times> vm_pagedir)" where
  "vm_pagedir_alloc_backing_page pd pte =
     (case rmm_allocpages (pagedir_mm pd) 1 of
        Inl e \<Rightarrow> Inl (VmMemoryManager e)
      | Inr (p, mm') \<Rightarrow>
          let haddr = (of_nat p :: 64 word);
              hpage_addr = drop_bit PAGE_SIZE_BITS haddr
          in if hpage_addr = 0 then Inl VmPanicked
             else Inr (hpage_addr, pd\<lparr>pagedir_mm := mm', hostmem := (hostmem pd)(pte := hpage_addr)\<rparr>))"

text \<open>
  The loop of \<open>vm_pagedir_lookup_pte\<close>, one call for each turn; \<open>level\<close> is a \<open>u8\<close>, which
  bounds the number of turns.
\<close>

function vm_pagedir_walk ::
  "vm_pagedir \<Rightarrow> 64 word \<Rightarrow> nat \<Rightarrow> 64 word \<Rightarrow> 8 word \<Rightarrow> vm_fault + (64 word \<times> vm_pagedir)" where
  "vm_pagedir_walk pd masked_vfn bits ptab level =
     (let index = getbits masked_vfn (VFN_BITS - (1 + bits)) VM_PTAB_BITS;
          pte = hostmem pd (ptab + 8 * index)
      in if level = VM_PTAB_LEVELS then
           (if pte = 0 then vm_pagedir_alloc_backing_page pd (ptab + 8 * index)
            else Inr (pte, pd))
         else
           let bits2 = bits + VM_PTAB_BITS;
               masked_vfn2 = getbits masked_vfn (VFN_BITS - (1 + bits2)) (VFN_BITS - bits2)
           in if pte \<noteq> 0 then
                vm_pagedir_walk pd masked_vfn2 bits2 (push_bit PAGE_SIZE_BITS pte) (level + 1)
              else
                case vm_ptab_create pd of
                  Inl e \<Rightarrow> Inl e
                | Inr (ptab2, pd1) \<Rightarrow>
                    if ptab2 = 0 then Inl VmPanicked
                    else if \<not> IS_ALIGN2_u64 ptab2 (of_nat PAGE_SIZE) then Inl VmAssert
                    else
                      vm_pagedir_walk
                        (pd1\<lparr>hostmem := (hostmem pd1)
                               (ptab + 8 * index := drop_bit PAGE_SIZE_BITS ptab2)\<rparr>)
                        masked_vfn2 bits2 ptab2 (level + 1))"
  by pat_completeness auto
termination
proof -
  have dec: "unat (VM_PTAB_LEVELS - (level + 1)) < unat (VM_PTAB_LEVELS - level)"
    if "level \<noteq> VM_PTAB_LEVELS" for level :: "8 word"
  proof -
    have nz: "VM_PTAB_LEVELS - level \<noteq> 0" using that by simp
    then have "0 < unat (VM_PTAB_LEVELS - level)" by (simp add: unat_gt_0)
    moreover have "unat (VM_PTAB_LEVELS - level - 1) = unat (VM_PTAB_LEVELS - level) - 1"
      using nz by (rule unat_minus_one)
    ultimately have "unat (VM_PTAB_LEVELS - level - 1) < unat (VM_PTAB_LEVELS - level)"
      by simp
    then show ?thesis by (simp add: diff_diff_eq)
  qed
  show ?thesis
    by (relation "measure (\<lambda>(pd, masked_vfn, bits, ptab, level). unat (VM_PTAB_LEVELS - level))")
      (auto simp add: dec)
qed

declare vm_pagedir_walk.simps [simp del]

text \<open>\<open>vm_pagedir_lookup_pte\<close>: the leaf entry for a virtual frame number.\<close>

definition vm_pagedir_lookup_pte ::
  "vm_pagedir \<Rightarrow> 64 word \<Rightarrow> vm_fault + (64 word \<times> vm_pagedir)" where
  "vm_pagedir_lookup_pte pd vfn =
     (if \<not> vfn > 0 then Inl VmAssert
      else vm_pagedir_walk pd (vfn - 1) 0 (root pd) 1)"

text \<open>\<open>vm_pagedir_translate\<close>.\<close>

definition vm_pagedir_translate ::
  "vm_pagedir \<Rightarrow> 64 word \<Rightarrow> vm_fault + (64 word \<times> vm_pagedir)" where
  "vm_pagedir_translate pd vaddr =
     (case vm_pagedir_lookup_pte pd (VM_VFN vaddr) of
        Inl e \<Rightarrow> Inl e
      | Inr (pte, pd1) \<Rightarrow>
          Inr (push_bit PAGE_SIZE_BITS pte + VM_ADDR_OFFSET vaddr, pd1))"

text \<open>
  \<open>_vm_cache_miss\<close>: the value returned (\<open>haddr_diff\<close>, or 0 when the lookup failed), the
  cache and the page directory.
\<close>

definition vm_cache_miss ::
  "vm_cache \<Rightarrow> vm_pagedir \<Rightarrow> 64 word \<Rightarrow> vm_op \<Rightarrow> vm_fault + (64 word \<times> vm_cache \<times> vm_pagedir)" where
  "vm_cache_miss cache pd vaddr op =
     (if VM_ADDR_MIN > vaddr \<or> vaddr > VM_ADDR_MAX then Inl VmPanicked
      else if \<not> IS_ALIGN2_u64 vaddr (VM_OP_ALIGNMENT op) then Inl VmPanicked
      else
        case vm_pagedir_lookup_pte pd (VM_VFN vaddr) of
          Inl e \<Rightarrow> Inl e
        | Inr (pte, pd1) \<Rightarrow>
            let hpaddr = push_bit PAGE_SIZE_BITS pte in
            if hpaddr = 0 then Inr (0, cache, pd1)
            else
              case vm_cache_add cache (VM_PAGE_ADDR vaddr) hpaddr of
                Inl e \<Rightarrow> Inl VmAssert
              | Inr (d, cache') \<Rightarrow> Inr (d, cache', pd1))"

text \<open>
  The local \<open>hpaddr\<close> of \<open>_vm_cache_miss\<close>: the host page address it installs; the miss handler
  takes its failure exit when it is 0.
\<close>

definition vm_miss_hpaddr :: "vm_pagedir \<Rightarrow> 64 word \<Rightarrow> 64 word" where
  "vm_miss_hpaddr pd vaddr =
     (case vm_pagedir_lookup_pte pd (VM_VFN vaddr) of
        Inl e \<Rightarrow> 0
      | Inr (pte, pd1) \<Rightarrow> push_bit PAGE_SIZE_BITS pte)"

text \<open>A cache hit: the tag comparison of \<open>vm_cache_lookup\<close> succeeds.\<close>

definition vm_cache_hit :: "vm_cache \<Rightarrow> 64 word \<Rightarrow> 64 word \<Rightarrow> bool" where
  "vm_cache_hit cache vaddr alignment =
     (tag (entries cache (VM_VFN vaddr AND VM_CACHE_INDEX_VFN_MASK)) =
        vaddr AND (VM_ADDR_PAGE_MASK XOR (alignment - 1)))"

text \<open>
  What the walk needs from the memory manager: a page it hands out for a new page table during
  the walk holds none of the entries the walk has passed through (\<open>path\<close>). A memory manager
  that never hands out a page in use guarantees it, since those entries lie in page tables of
  this directory. The function follows the walk turn by turn.
\<close>

function vm_walk_fresh ::
  "vm_pagedir \<Rightarrow> 64 word \<Rightarrow> nat \<Rightarrow> 64 word \<Rightarrow> 8 word \<Rightarrow> 64 word list \<Rightarrow> bool" where
  "vm_walk_fresh pd masked_vfn bits ptab level path =
     (let index = getbits masked_vfn (VFN_BITS - (1 + bits)) VM_PTAB_BITS;
          pte = hostmem pd (ptab + 8 * index)
      in if level = VM_PTAB_LEVELS then True
         else
           let bits2 = bits + VM_PTAB_BITS;
               masked_vfn2 = getbits masked_vfn (VFN_BITS - (1 + bits2)) (VFN_BITS - bits2)
           in if pte \<noteq> 0 then
                vm_walk_fresh pd masked_vfn2 bits2 (push_bit PAGE_SIZE_BITS pte) (level + 1)
                  ((ptab + 8 * index) # path)
              else
                case vm_ptab_create pd of
                  Inl e \<Rightarrow> True
                | Inr (ptab2, pd1) \<Rightarrow>
                    if ptab2 = 0 then True
                    else if \<not> IS_ALIGN2_u64 ptab2 (of_nat PAGE_SIZE) then True
                    else
                      list_all (\<lambda>s. \<not> s - ptab2 < of_nat VM_PTAB_SIZE) path \<and>
                      vm_walk_fresh
                        (pd1\<lparr>hostmem := (hostmem pd1)
                               (ptab + 8 * index := drop_bit PAGE_SIZE_BITS ptab2)\<rparr>)
                        masked_vfn2 bits2 ptab2 (level + 1) ((ptab + 8 * index) # path))"
  by pat_completeness auto
termination
proof -
  have dec: "unat (VM_PTAB_LEVELS - (level + 1)) < unat (VM_PTAB_LEVELS - level)"
    if "level \<noteq> VM_PTAB_LEVELS" for level :: "8 word"
  proof -
    have nz: "VM_PTAB_LEVELS - level \<noteq> 0" using that by simp
    then have "0 < unat (VM_PTAB_LEVELS - level)" by (simp add: unat_gt_0)
    moreover have "unat (VM_PTAB_LEVELS - level - 1) = unat (VM_PTAB_LEVELS - level) - 1"
      using nz by (rule unat_minus_one)
    ultimately have "unat (VM_PTAB_LEVELS - level - 1) < unat (VM_PTAB_LEVELS - level)"
      by simp
    then show ?thesis by (simp add: diff_diff_eq)
  qed
  show ?thesis
    by (relation "measure (\<lambda>(pd, masked_vfn, bits, ptab, level, path).
          unat (VM_PTAB_LEVELS - level))")
      (auto simp add: dec)
qed

declare vm_walk_fresh.simps [simp del]

definition vm_lookup_fresh :: "vm_pagedir \<Rightarrow> 64 word \<Rightarrow> bool" where
  "vm_lookup_fresh pd vfn = vm_walk_fresh pd (vfn - 1) 0 (root pd) 1 []"

text \<open>
  A page directory for the examples: the root table at \<open>0x100000\<close>, all entries zero, over the
  memory manager \<open>rmm_example\<close>.
\<close>

definition vm_pagedir_example :: vm_pagedir where
  "vm_pagedir_example = \<lparr>root = 0x100000, pagedir_mm = rmm_example, hostmem = (\<lambda>a. 0)\<rparr>"

section \<open>Kernel heap allocator: slab heaps (kmem allocator source)\<close>

text \<open>
  \<open>SLABHEAP_COUNT\<close>, \<open>SLABHEAP_MIN_SIZE = sizeof(void*)\<close>, \<open>SLABHEAP_BLOCK_SIZE\<close> and
  \<open>CHUNK_SIZE\<close> for a 64-bit target.
\<close>

definition SLABHEAP_COUNT :: nat where
  "SLABHEAP_COUNT = 4"

definition SLABHEAP_MIN_SIZE :: nat where
  "SLABHEAP_MIN_SIZE = 8"

definition SLABHEAP_BLOCK_SIZE :: nat where
  "SLABHEAP_BLOCK_SIZE = PAGE_SIZE * 16"

definition CHUNK_SIZE :: nat where
  "CHUNK_SIZE = 64"

text \<open>\<open>sizeof(slabblock_t)\<close>: two pointers and two \<open>u32\<close>.\<close>

definition sizeof_slabblock :: nat where
  "sizeof_slabblock = 24"

text \<open>\<open>SLABHEAP_BLOCK_MASK = ~(SLABHEAP_BLOCK_SIZE - 1)\<close> as a 64-bit value.\<close>

definition SLABHEAP_BLOCK_MASK :: nat where
  "SLABHEAP_BLOCK_MASK = UINTPTR_MAX - (SLABHEAP_BLOCK_SIZE - 1)"

text \<open>
  \<open>rsm_clz\<close> is the compiler's count of leading zero bits of a 64-bit value;
  \<open>rsm_fls(x) = x ? 64 - rsm_clz(x) : 0\<close> and \<open>ILOG2(n) = rsm_fls(n) - 1\<close>.
\<close>

fun bit_length :: "nat \<Rightarrow> nat" where
  "bit_length n = (if n = 0 then 0 else Suc (bit_length (n div 2)))"

declare bit_length.simps [simp del]

definition rsm_clz :: "nat \<Rightarrow> nat" where
  "rsm_clz x = 64 - bit_length x"

definition rsm_fls :: "nat \<Rightarrow> int" where
  "rsm_fls x = (if x \<noteq> 0 then 64 - int (rsm_clz x) else 0)"

definition ILOG2 :: "nat \<Rightarrow> int" where
  "ILOG2 n = rsm_fls n - 1"

text \<open>\<open>CEIL_POW2(x)\<close> for a \<open>usize\<close>.\<close>

definition CEIL_POW2 :: "nat \<Rightarrow> nat" where
  "CEIL_POW2 x =
     (if x \<le> 1 then 1
      else if x > u64 (x * 2) then UINTPTR_MAX
      else u64 (2 ^ (64 - rsm_clz (usub x 1))))"

text \<open>\<open>kmem_alloc_size\<close>; \<open>None\<close> is the failed \<open>assert(size > 0)\<close>.\<close>

definition kmem_alloc_size :: "nat \<Rightarrow> nat option" where
  "kmem_alloc_size size' =
     (if \<not> size' > 0 then None
      else
        let max_slab_size = u64 (2 ^ nat (int (SLABHEAP_COUNT - 1) + ILOG2 SLABHEAP_MIN_SIZE))
        in if size' \<le> max_slab_size then Some (CEIL_POW2 size')
           else Some (ALIGN2 size' CHUNK_SIZE))"

text \<open>
  The allocator state. Host memory is a store of 64-bit words at the addresses the allocator
  reads and writes: a \<open>slabblock_t\<close> at address \<open>b\<close> has \<open>next\<close> at \<open>b\<close>, \<open>recycle\<close> at
  \<open>b + 8\<close>, and \<open>cap\<close> (low half) and \<open>len\<close> (high half) in the word at \<open>b + 16\<close>; a free
  \<open>slabchunk_t\<close> keeps \<open>next\<close> in its first word. Address 0 is \<open>NULL\<close>.

  Modelled from the spec: the search of the sub-heap bitset (\<open>bitset_find_first_fit\<close>,
  \<open>bitset_find_best_fit\<close> of \<open>bits.h\<close>) is not part of the sources at hand. The sub-heap layer
  is represented by \<open>heap_regions\<close>, the addresses the coming successful
  \<open>kmem_heapalloc\<close> calls return; an empty list means the sub-heaps are exhausted. An
  allocation there reserves \<open>\<lceil>size / CHUNK_SIZE\<rceil>\<close> chunks and fills them with
  \<open>KMEM_ALLOC_SCRUB_BYTE\<close>.
\<close>

record slabheap =
  size_sh :: nat   \<comment> \<open>\<open>size\<close>: the chunk size\<close>
  usable :: nat
  full :: nat

record rmemalloc =
  slabheaps :: "nat \<Rightarrow> slabheap"
  mem :: "nat \<Rightarrow> nat"
  heap_regions :: "nat list"

datatype kmem_error =
  KmemAssertFail   \<comment> \<open>an \<open>assert\<close>, \<open>assertf\<close> or \<open>safecheckf\<close> of the source fails\<close>
| KmemPanic        \<comment> \<open>\<open>kmem_expand\<close>: \<open>panic("TODO expand memory")\<close>\<close>

definition block_next :: "rmemalloc \<Rightarrow> nat \<Rightarrow> nat" where
  "block_next a b = mem a b"

definition block_recycle :: "rmemalloc \<Rightarrow> nat \<Rightarrow> nat" where
  "block_recycle a b = mem a (b + 8)"

definition block_cap :: "rmemalloc \<Rightarrow> nat \<Rightarrow> nat" where
  "block_cap a b = mem a (b + 16) mod 2 ^ 32"

definition block_len :: "rmemalloc \<Rightarrow> nat \<Rightarrow> nat" where
  "block_len a b = mem a (b + 16) div 2 ^ 32"

definition store :: "rmemalloc \<Rightarrow> nat \<Rightarrow> nat \<Rightarrow> rmemalloc" where
  "store a addr v = a\<lparr>mem := (mem a)(addr := v)\<rparr>"

definition set_block_cap_len :: "rmemalloc \<Rightarrow> nat \<Rightarrow> nat \<Rightarrow> nat \<Rightarrow> rmemalloc" where
  "set_block_cap_len a b cap len = store a (b + 16) (cap mod 2 ^ 32 + 2 ^ 32 * (len mod 2 ^ 32))"

definition set_slabheap :: "rmemalloc \<Rightarrow> nat \<Rightarrow> slabheap \<Rightarrow> rmemalloc" where
  "set_slabheap a i sh = a\<lparr>slabheaps := (slabheaps a)(i := sh)\<rparr>"

text \<open>\<open>kmem_heapalloc\<close>: the pointer (0 when no sub-heap has room), the effective size, the state.\<close>

definition kmem_heapalloc :: "rmemalloc \<Rightarrow> nat \<Rightarrow> nat \<Rightarrow> nat \<times> nat \<times> rmemalloc" where
  "kmem_heapalloc a size' alignment =
     (case heap_regions a of
        [] \<Rightarrow> (0, size', a)
      | ptr # rest \<Rightarrow>
          let nchunks = (size' + CHUNK_SIZE - 1) div CHUNK_SIZE;
              size2 = nchunks * CHUNK_SIZE
          in (ptr, size2,
              a\<lparr>heap_regions := rest,
                mem := (\<lambda>addr. if ptr \<le> addr \<and> addr < ptr + size2
                                then 0xbbbbbbbbbbbbbbbb else mem a addr)\<rparr>))"

text \<open>
  \<open>slabheap_grow\<close> for the slab heap with index \<open>i\<close>: the new block, or 0. When the sub-heaps
  have no room, \<open>kmem_expand\<close> panics.
\<close>

definition slabheap_grow :: "rmemalloc \<Rightarrow> nat \<Rightarrow> kmem_error + (nat \<times> rmemalloc)" where
  "slabheap_grow a i =
     (if usable (slabheaps a i) \<noteq> 0 then Inl KmemAssertFail
      else
        case kmem_heapalloc a SLABHEAP_BLOCK_SIZE SLABHEAP_BLOCK_SIZE of
          (block, size', a1) \<Rightarrow>
            if block = 0 then Inl KmemPanic
            else if block mod SLABHEAP_BLOCK_SIZE \<noteq> 0 then Inl KmemAssertFail
            else
              let a2 = set_block_cap_len a1 block (SLABHEAP_BLOCK_SIZE div size_sh (slabheaps a1 i)) 0;
                  a3 = store a2 (block + 8) 0;
                  a4 = store a3 block 0;
                  a5 = set_slabheap a4 i ((slabheaps a4 i)\<lparr>usable := block\<rparr>)
              in Inr (block, a5))"

text \<open>\<open>slabheap_alloc\<close> for the slab heap with index \<open>i\<close>: the chunk, or 0.\<close>

definition slabheap_alloc :: "rmemalloc \<Rightarrow> nat \<Rightarrow> kmem_error + (nat \<times> rmemalloc)" where
  "slabheap_alloc a i =
     (case (if usable (slabheaps a i) = 0 then slabheap_grow a i
            else Inr (usable (slabheaps a i), a)) of
        Inl e \<Rightarrow> Inl e
      | Inr (block, a1) \<Rightarrow>
          if block = 0 then Inr (0, a1)
          else
            let sz = size_sh (slabheaps a1 i);
                chunk0 = block_recycle a1 block
            in case (if chunk0 = 0 then
                       (if \<not> (block_cap a1 block + 2 ^ 32 - block_len a1 block) mod 2 ^ 32 > 0
                        then Inl KmemAssertFail
                        else
                          let data_addr = ALIGN2 (u64 (block + sizeof_slabblock)) sz;
                              chunk = u64 (data_addr + u64 (block_len a1 block * sz));
                              a2 = store a1 chunk 0;
                              a3 = set_block_cap_len a2 block (block_cap a2 block)
                                     (block_len a2 block + 1)
                          in Inr (chunk, a3))
                     else Inr (chunk0, a1)) of
                 Inl e \<Rightarrow> Inl e
               | Inr (chunk, a4) \<Rightarrow>
                   let a5 = store a4 (block + 8) (mem a4 chunk)
                   in if mem a5 chunk = 0 \<and> block_len a5 block = block_cap a5 block then
                        let a6 = set_slabheap a5 i ((slabheaps a5 i)\<lparr>usable := block_next a5 block\<rparr>);
                            a7 = store a6 block (full (slabheaps a6 i));
                            a8 = set_slabheap a7 i ((slabheaps a7 i)\<lparr>full := block\<rparr>)
                        in Inr (chunk, a8)
                      else Inr (chunk, a5))"

text \<open>
  \<open>slabheap_free\<close> for the slab heap with index \<open>i\<close>. \<open>memset(ptr, KMEM_FREE_SCRUB_BYTE, size)\<close>
  fills the chunk before its first word is overwritten with the recycle link.
\<close>

definition scrub_free :: "rmemalloc \<Rightarrow> nat \<Rightarrow> nat \<Rightarrow> rmemalloc" where
  "scrub_free a ptr n =
     a\<lparr>mem := (\<lambda>addr. if ptr \<le> addr \<and> addr < ptr + n then 0xaaaaaaaaaaaaaaaa else mem a addr)\<rparr>"

definition slabheap_free :: "rmemalloc \<Rightarrow> nat \<Rightarrow> nat \<Rightarrow> kmem_error + rmemalloc" where
  "slabheap_free a i ptr =
     (if ptr mod size_sh (slabheaps a i) \<noteq> 0 then Inl KmemAssertFail
      else
        let a1 = scrub_free a ptr (size_sh (slabheaps a i));
            block = ptr AND SLABHEAP_BLOCK_MASK;
            block_full = (block_recycle a1 block = 0 \<and> block_len a1 block = block_cap a1 block);
            a2 = store a1 ptr (block_recycle a1 block);
            a3 = store a2 (block + 8) ptr
        in if block_full then
             let a4 = set_slabheap a3 i ((slabheaps a3 i)\<lparr>full := block_next a3 block\<rparr>);
                 a5 = store a4 block (usable (slabheaps a4 i));
                 a6 = set_slabheap a5 i ((slabheaps a5 i)\<lparr>usable := block\<rparr>)
             in Inr a6
           else Inr a3)"

text \<open>The loop over the slab heaps shared by \<open>kmem_alloc_aligned\<close> and \<open>kmem_free\<close>: the first
  index whose chunk size is at least \<open>n\<close>.\<close>

fun slab_index_loop :: "rmemalloc \<Rightarrow> nat \<Rightarrow> nat \<Rightarrow> nat \<Rightarrow> nat option" where
  "slab_index_loop a n i 0 = None"
| "slab_index_loop a n i (Suc k) =
     (if n \<le> size_sh (slabheaps a i) then Some i else slab_index_loop a n (Suc i) k)"

text \<open>\<open>rmem2_t\<close>.\<close>

record rmem2 =
  start :: nat
  size_r :: nat   \<comment> \<open>\<open>size\<close>\<close>

text \<open>\<open>kmem_alloc_aligned\<close>.\<close>

definition kmem_alloc_aligned ::
  "rmemalloc \<Rightarrow> nat \<Rightarrow> nat \<Rightarrow> kmem_error + (rmem2 \<times> rmemalloc)" where
  "kmem_alloc_aligned a size' alignment =
     (if \<not> IS_POW2 alignment then Inl KmemAssertFail
      else if \<not> alignment \<le> PAGE_SIZE then Inl KmemAssertFail
      else
        let slabsize = ALIGN2 size' alignment
        in case slab_index_loop a slabsize 0 SLABHEAP_COUNT of
             Some i \<Rightarrow>
               (case slabheap_alloc a i of
                  Inl e \<Rightarrow> Inl e
                | Inr (ptr, a1) \<Rightarrow>
                    if ptr = 0 then Inl KmemPanic
                    else Inr (\<lparr>start = ptr, size_r = size_sh (slabheaps a i)\<rparr>, a1))
           | None \<Rightarrow>
               (case kmem_heapalloc a size' alignment of
                  (ptr, size2, a1) \<Rightarrow>
                    if ptr = 0 then Inl KmemPanic
                    else Inr (\<lparr>start = ptr, size_r = size2\<rparr>, a1)))"

text \<open>
  \<open>kmem_free\<close>. A region that fits no slab heap goes back to the sub-heap that contains it;
  the sub-heap bitsets are not part of the state, so that branch leaves the state as it is.
\<close>

definition kmem_free :: "rmemalloc \<Rightarrow> rmem2 \<Rightarrow> kmem_error + rmemalloc" where
  "kmem_free a region =
     (if start region = 0 then Inl KmemAssertFail
      else
        case slab_index_loop a (size_r region) 0 SLABHEAP_COUNT of
          Some i \<Rightarrow> slabheap_free a i (start region)
        | None \<Rightarrow> Inr a)"

text \<open>
  The slab heaps as \<open>kmem_allocator_create\<close> initialises them:
  \<open>size = 1 << (i + ILOG2(SLABHEAP_MIN_SIZE))\<close>, both lists empty.
\<close>

definition slabheaps_init :: "nat \<Rightarrow> slabheap" where
  "slabheaps_init i = \<lparr>size_sh = 2 ^ nat (int i + ILOG2 SLABHEAP_MIN_SIZE), usable = 0, full = 0\<rparr>"

text \<open>
  Two allocator states for the size class of 64-byte chunks (index 3, 1024 chunks to a block):
  the state after \<open>kmem_allocator_create\<close> when the sub-heaps can hand out the regions at
  \<open>0x100000\<close> and \<open>0x200000\<close>, and the state in which both of these are blocks with all
  chunks handed out, the second one at the head of the full list.
\<close>

definition kmem_example :: rmemalloc where
  "kmem_example =
     \<lparr>slabheaps = slabheaps_init, mem = (\<lambda>addr. 0), heap_regions = [0x100000, 0x200000]\<rparr>"

definition kmem_example_full :: rmemalloc where
  "kmem_example_full =
     \<lparr>slabheaps = slabheaps_init(3 := \<lparr>size_sh = 64, usable = 0, full = 0x200000\<rparr>),
      mem = (\<lambda>addr. 0)(0x100000 := 0, 0x100008 := 0, 0x100010 := 1024 + 2 ^ 32 * 1024,
              0x200000 := 0x100000, 0x200008 := 0, 0x200010 := 1024 + 2 ^ 32 * 1024),
      heap_regions = []\<rparr>"

text \<open>The blocks on a list that starts at \<open>head\<close>, following \<open>next\<close> for at most \<open>fuel\<close> links.\<close>

fun block_list :: "rmemalloc \<Rightarrow> nat \<Rightarrow> nat \<Rightarrow> nat list" where
  "block_list a head 0 = []"
| "block_list a head (Suc fuel) =
     (if head = 0 then [] else head # block_list a (block_next a head) fuel)"

section \<open>Properties of the physical memory manager\<close>

text \<open>
  C10: \<open>rmm_allocpages(mm, 0)\<close> returns \<open>NULL\<close> and leaves the state as it is; the zero
  case returns before the power-of-two check and is not an assertion failure.
\<close>

theorem rmm_allocpages_zero:
  "rmm_allocpages mm 0 = Inr (0, mm)"
  by (simp add: rmm_allocpages_def)

lemma usub_ge: "b \<le> a \<Longrightarrow> a < 2 ^ 64 \<Longrightarrow> usub a b = a - b"
proof -
  assume a: "b \<le> a" "a < 2 ^ 64"
  then have b: "b mod 2 ^ 64 = b" by simp
  have c: "a + 2 ^ 64 - b = (a - b) + 2 ^ 64" using a by simp
  have d: "a - b < 2 ^ 64" using a by simp
  have "usub a b = ((a - b) + 2 ^ 64) mod 2 ^ 64"
    by (simp only: usub_def b c)
  also have "\<dots> = (a - b) mod 2 ^ 64"
    by (rule mod_add_self2)
  also have "\<dots> = a - b"
    using d by (rule mod_less)
  finally show ?thesis .
qed

lemma u64_lt: "a < 2 ^ 64 \<Longrightarrow> u64 a = a"
  by (simp add: u64_def)

lemma alloc1_gt:
  "MAX_ORDER < order \<Longrightarrow> rmm_allocpages1 mm order = Inr (UINTPTR_MAX, mm)"
  by (subst rmm_allocpages1.simps) simp

lemma alloc1_empty:
  "order \<le> MAX_ORDER \<Longrightarrow> freelists mm order = [] \<Longrightarrow>
   rmm_allocpages1 mm order =
     (case rmm_allocpages1 mm (Suc order) of
        Inl e \<Rightarrow> Inl e
      | Inr (addr, mm2) \<Rightarrow>
          if addr = UINTPTR_MAX then Inr (UINTPTR_MAX, mm2)
          else alloc_mark (freelist_append mm2 order
                 (u64 (u64 (addr + start_addr mm2) + PAGE_SIZE * 2 ^ order))) order addr)"
proof -
  assume a: "order \<le> MAX_ORDER" "freelists mm order = []"
  have "(freelists mm)(order := []) = freelists mm"
    using a(2) by (metis fun_upd_triv)
  then have e: "mm\<lparr>freelists := (freelists mm)(order := [])\<rparr> = mm"
    by simp
  show ?thesis
    by (subst rmm_allocpages1.simps)
      (use a in \<open>simp add: ilist_pop_def Let_def e split: sum.splits prod.splits\<close>)
qed

lemma alloc1_pop:
  "order \<le> MAX_ORDER \<Longrightarrow> freelists mm order \<noteq> [] \<Longrightarrow> last (freelists mm order) \<noteq> 0 \<Longrightarrow>
   rmm_allocpages1 mm order =
     alloc_mark (mm\<lparr>freelists := (freelists mm)(order := butlast (freelists mm order))\<rparr>) order
       (usub (last (freelists mm order)) (start_addr mm))"
  by (subst rmm_allocpages1.simps) (simp add: ilist_pop_def Let_def)

lemma alloc_mark_cases:
  "alloc_mark mm order addr = Inl AssertFail \<or>
   alloc_mark mm order addr = Inr (addr, bit_set mm order (addr div (PAGE_SIZE * 2 ^ order)))"
  by (simp add: alloc_mark_def Let_def)

lemma bit_set_fields [simp]:
  "freelists (bit_set mm order b) = freelists mm"
  "free_size (bit_set mm order b) = free_size mm"
  "start_addr (bit_set mm order b) = start_addr mm"
  "end_addr (bit_set mm order b) = end_addr mm"
  by (simp_all add: bit_set_def)

lemma freelist_append_fields [simp]:
  "bitsets (freelist_append mm order p) = bitsets mm"
  "free_size (freelist_append mm order p) = free_size mm"
  "start_addr (freelist_append mm order p) = start_addr mm"
  "end_addr (freelist_append mm order p) = end_addr mm"
  by (simp_all add: freelist_append_def)

text \<open>What \<open>rmm_allocpages1\<close> returns, in terms of the free lists it starts from.\<close>

lemma alloc1_none:
  "(\<forall>j. order \<le> j \<and> j \<le> MAX_ORDER \<longrightarrow> freelists mm j = []) \<Longrightarrow>
   rmm_allocpages1 mm order = Inr (UINTPTR_MAX, mm)"
proof (induction "Suc MAX_ORDER - order" arbitrary: order)
  case 0
  then have "MAX_ORDER < order" by simp
  then show ?case by (rule alloc1_gt)
next
  case (Suc n)
  then have le: "order \<le> MAX_ORDER" and n: "n = Suc MAX_ORDER - Suc order" by simp_all
  have e: "freelists mm order = []" using Suc.prems le by simp
  have "\<forall>j. Suc order \<le> j \<and> j \<le> MAX_ORDER \<longrightarrow> freelists mm j = []"
    using Suc.prems by (simp add: Suc_leD)
  then have "rmm_allocpages1 mm (Suc order) = Inr (UINTPTR_MAX, mm)"
    by (rule Suc.hyps(1) [OF n])
  then show ?case by (simp add: alloc1_empty [OF le e])
qed

lemma alloc1_ok_Suc: "alloc1_ok mm (Suc order) addr mm' \<Longrightarrow> alloc1_ok mm order addr mm'"
  unfolding alloc1_ok_def using Suc_leD by blast

lemma alloc1_some:
  assumes wf: "rmm_wf mm"
  shows "order \<le> j \<Longrightarrow> j \<le> MAX_ORDER \<Longrightarrow> freelists mm j \<noteq> [] \<Longrightarrow>
     rmm_allocpages1 mm order = Inl AssertFail \<or>
     (\<exists>addr mm'. rmm_allocpages1 mm order = Inr (addr, mm') \<and> alloc1_ok mm order addr mm')"
proof (induction "Suc MAX_ORDER - order" arbitrary: order)
  case 0
  then show ?case by simp
next
  case (Suc n)
  then have le: "order \<le> MAX_ORDER" and n: "n = Suc MAX_ORDER - Suc order" by simp_all
  show ?case
  proof (cases "freelists mm order = []")
    case True
    with Suc.prems have "Suc order \<le> j" by (metis Suc_leI le_neq_implies_less)
    from Suc.hyps(1) [OF n this Suc.prems(2,3)]
    show ?thesis
    proof (elim disjE exE conjE)
      assume "rmm_allocpages1 mm (Suc order) = Inl AssertFail"
      then show ?thesis by (simp add: alloc1_empty [OF le True])
    next
      fix addr mm2
      assume r: "rmm_allocpages1 mm (Suc order) = Inr (addr, mm2)"
        and ok: "alloc1_ok mm (Suc order) addr mm2"
      let ?mm3 = "freelist_append mm2 order
                 (u64 (u64 (addr + start_addr mm2) + PAGE_SIZE * 2 ^ order))"
      from ok have a: "addr \<noteq> UINTPTR_MAX" by (simp add: alloc1_ok_def)
      have eq: "rmm_allocpages1 mm order = alloc_mark ?mm3 order addr"
        using r a by (simp add: alloc1_empty [OF le True])
      from alloc1_ok_Suc [OF ok]
      have ok': "alloc1_ok mm order addr (bit_set ?mm3 order (addr div (PAGE_SIZE * 2 ^ order)))"
        by (simp add: alloc1_ok_def)
      from alloc_mark_cases [of ?mm3 order addr] eq ok' show ?thesis
        by auto
    qed
  next
    case False
    let ?p = "last (freelists mm order)"
    have pin: "?p \<in> set (freelists mm order)" using False by simp
    with wf le have p: "start_addr mm \<le> ?p" "?p + PAGE_SIZE * 2 ^ order \<le> end_addr mm"
      "PAGE_SIZE dvd (?p - start_addr mm)" "0 < start_addr mm" "end_addr mm < 2 ^ 64"
      by (auto simp add: rmm_wf_def)
    then have p0: "?p \<noteq> 0" and p64: "?p < 2 ^ 64" by simp_all
    have us: "usub ?p (start_addr mm) = ?p - start_addr mm"
      using p(1) p64 by (rule usub_ge)
    have "(2::nat) dvd PAGE_SIZE" by (simp add: PAGE_SIZE_def PAGE_SIZE_BITS_def)
    then have "even (?p - start_addr mm)"
      using p(3) by (rule dvd_trans)
    moreover have "odd UINTPTR_MAX"
      by (simp add: UINTPTR_MAX_def)
    ultimately have nm: "?p - start_addr mm \<noteq> UINTPTR_MAX"
      by metis
    let ?mm1 = "mm\<lparr>freelists := (freelists mm)(order := butlast (freelists mm order))\<rparr>"
    have eq: "rmm_allocpages1 mm order = alloc_mark ?mm1 order (?p - start_addr mm)"
      using alloc1_pop [OF le False p0] us by simp
    have ok: "alloc1_ok mm order (?p - start_addr mm)
                (bit_set ?mm1 order ((?p - start_addr mm) div (PAGE_SIZE * 2 ^ order)))"
      unfolding alloc1_ok_def using nm pin le by auto
    from alloc_mark_cases [of ?mm1 order "?p - start_addr mm"] eq ok show ?thesis
      by auto
  qed
qed

lemma order_loop_pow2: "order_loop (2 ^ k) n = n + k"
proof (induction k arbitrary: n)
  case 0
  show ?case by (subst order_loop.simps) simp
next
  case (Suc k)
  show ?case by (subst order_loop.simps) (simp add: Suc)
qed

lemma IS_POW2_pow2: "k < 64 \<Longrightarrow> IS_POW2 (2 ^ k)"
proof -
  assume k: "k < 64"
  have lt: "(2::nat) ^ k < 2 ^ 64" using k by (intro power_strict_increasing) simp_all
  have "usub (2 ^ k) 1 = 2 ^ k - 1"
    by (rule usub_ge) (use lt in simp_all)
  then have "usub (2 ^ k) 1 = mask k" by (simp add: mask_eq_exp_minus_1)
  moreover have "(2::nat) ^ k AND mask k = 0"
    by (rule bit_eqI) (auto simp add: bit_simps)
  ultimately show ?thesis by (simp add: IS_POW2_def)
qed

lemma listed_pages_ge:
  "j \<le> K \<Longrightarrow> fl j \<noteq> [] \<Longrightarrow> 2 ^ j \<le> listed_pages fl K"
proof (induction K)
  case 0
  then show ?case by (cases "fl 0") simp_all
next
  case (Suc K)
  show ?case
  proof (cases "j = Suc K")
    case True
    with Suc.prems have "1 \<le> length (fl (Suc K))" by (cases "fl (Suc K)") simp_all
    then have "2 ^ Suc K * 1 \<le> 2 ^ Suc K * length (fl (Suc K))"
      by (rule mult_le_mono2)
    then have "2 ^ Suc K \<le> 2 ^ Suc K * length (fl (Suc K)) + listed_pages fl K"
      by (simp only: mult_1_right trans_le_add1)
    with True show ?thesis by (simp only: listed_pages.simps)
  next
    case False
    with Suc have "2 ^ j \<le> listed_pages fl K" by simp
    then show ?thesis by simp
  qed
qed

lemmas pmm_eval = ALIGN2_def ALIGN2_FLOOR_def usub_def u64_def PAGE_SIZE_def
  PAGE_SIZE_BITS_def MAX_ORDER_def MAX_ORDER_NPAGES_def BITSET_SIZE_def Let_def
  freelist_append_def ilist_append_def
  bit_clear_def bit_set_def bit_get_def UINTPTR_MAX_def IS_POW2_def IS_ALIGN2_def
  ilist_pop_def alloc_mark_def ilist_linked_def ilist_del_def

lemma bset20: "bset_total_loop n 20 = n + 2 + (\<Sum>k\<leftarrow>[1..<21]. BITSET_SIZE n k)"
  by (simp add: eval_nat_numeral upt_rec)

lemma listed_pages_empty: "listed_pages (\<lambda>order. []) K = 0"
  by (induction K) simp_all

lemma listed_pages_upd:
  "fl k = [] \<Longrightarrow>
   listed_pages (fl(k := l)) K = listed_pages fl K + (if k \<le> K then 2 ^ k * length l else 0)"
proof (induction K)
  case 0
  then show ?case by auto
next
  case (Suc K)
  then show ?case by (cases "k = Suc K") simp_all
qed

lemma rmm_example_wf: "rmm_wf rmm_example"
  unfolding rmm_wf_def rmm_example_def
  by (simp add: listed_pages_upd listed_pages_empty PAGE_SIZE_def PAGE_SIZE_BITS_def MAX_ORDER_def)

lemma seed_order_8: "seed_order_loop 8 (- 1) = 3" "seed_order_loop 2 (- 1) = 1"
  "seed_order_loop (Suc 0) (- 1) = 0"
  by (simp_all add: seed_order_loop.simps)

lemma floor_pow2_ex: "FLOOR_POW2 11 = 8" "FLOOR_POW2 3 = 2" "FLOOR_POW2 (Suc 0) = Suc 0"
  by (simp_all add: FLOOR_POW2.simps)

lemma rmm_seed_example:
  "rmm_seed \<lparr>start_addr = 4096, end_addr = 49152, free_size = 45056,
       bitsets = (\<lambda>order. {}), freelists = (\<lambda>order. [])\<rparr> 4096 11 = Inr rmm_example"
  by (simp add: rmm_seed.simps [of _ _ 11] rmm_seed.simps [of _ _ 3] rmm_seed.simps [of _ _ "Suc 0"]
      rmm_seed.simps [of _ _ 0] floor_pow2_ex seed_order_8 pmm_eval rmm_example_def)

lemma rmm_create_example: "rmm_create 544 8 4096 53248 = Inr (Some rmm_example)"
  by (simp add: rmm_create_def pmm_eval bset20 upt_rec rmm_seed_example)

text \<open>
  C7: \<open>rmm_allocpages\<close> on a well-formed state returns \<open>NULL\<close> exactly when every free list
  from the requested order up to \<open>MAX_ORDER\<close> is empty; that failure leaves the state as it
  is; a success takes exactly \<open>npages * PAGE_SIZE\<close> off \<open>free_size\<close>.
\<close>

theorem rmm_allocpages_null_iff_no_free_block:
  assumes wf: "rmm_wf mm" and k: "k < 64"
  shows "((\<exists>mm'. rmm_allocpages mm (2 ^ k) = Inr (0, mm')) \<longleftrightarrow>
            (\<forall>j. k \<le> j \<and> j \<le> MAX_ORDER \<longrightarrow> freelists mm j = [])) \<and>
         (\<forall>mm'. rmm_allocpages mm (2 ^ k) = Inr (0, mm') \<longrightarrow> mm' = mm) \<and>
         (\<forall>p mm'. rmm_allocpages mm (2 ^ k) = Inr (p, mm') \<and> p \<noteq> 0 \<longrightarrow>
            free_size mm' + 2 ^ k * PAGE_SIZE = free_size mm)"
proof (cases "\<forall>j. k \<le> j \<and> j \<le> MAX_ORDER \<longrightarrow> freelists mm j = []")
  case True
  then have "rmm_allocpages1 mm k = Inr (UINTPTR_MAX, mm)" by (rule alloc1_none)
  then have "rmm_allocpages mm (2 ^ k) = Inr (0, mm)"
    by (simp add: rmm_allocpages_def IS_POW2_pow2 [OF k] order_loop_pow2)
  with True show ?thesis by simp
next
  case False
  then obtain j where j: "k \<le> j" "j \<le> MAX_ORDER" "freelists mm j \<noteq> []" by blast
  from alloc1_some [OF wf j] show ?thesis
  proof (elim disjE exE conjE)
    assume "rmm_allocpages1 mm k = Inl AssertFail"
    then have "rmm_allocpages mm (2 ^ k) = Inl AssertFail"
      by (simp add: rmm_allocpages_def IS_POW2_pow2 [OF k] order_loop_pow2)
    with False show ?thesis by simp
  next
    fix addr mm1
    assume r: "rmm_allocpages1 mm k = Inr (addr, mm1)" and ok: "alloc1_ok mm k addr mm1"
    from ok obtain j' p where a: "addr \<noteq> UINTPTR_MAX" and fs: "free_size mm1 = free_size mm"
      and st: "start_addr mm1 = start_addr mm"
      and j': "k \<le> j'" "j' \<le> MAX_ORDER" and p: "p \<in> set (freelists mm j')"
      and addr: "addr = p - start_addr mm"
      unfolding alloc1_ok_def by blast
    from wf j' p have pw: "start_addr mm \<le> p" "p + PAGE_SIZE * 2 ^ j' \<le> end_addr mm"
      "0 < start_addr mm" "end_addr mm < 2 ^ 64"
      by (auto simp add: rmm_wf_def)
    then have "addr + start_addr mm1 = p" "p < 2 ^ 64" "p \<noteq> 0"
      using addr st by simp_all
    then have ptr: "u64 (addr + start_addr mm1) = p" "p \<noteq> 0"
      by (simp_all add: u64_lt)
    have "freelists mm j' \<noteq> []" using p by auto
    from listed_pages_ge [of j' MAX_ORDER "freelists mm", OF j'(2) this]
    have a2: "PAGE_SIZE * 2 ^ j' \<le> PAGE_SIZE * listed_pages (freelists mm) MAX_ORDER"
      by (rule mult_le_mono2)
    have "(2::nat) ^ k \<le> 2 ^ j'" using j'(1) by simp
    then have a1: "2 ^ k * PAGE_SIZE \<le> PAGE_SIZE * 2 ^ j'" by simp
    have a3: "PAGE_SIZE * listed_pages (freelists mm) MAX_ORDER \<le> free_size mm"
      and f64: "free_size mm < 2 ^ 64"
      using wf by (simp_all add: rmm_wf_def)
    have le: "2 ^ k * PAGE_SIZE \<le> free_size mm"
      by (rule le_trans [OF a1 le_trans [OF a2 a3]])
    have n64: "2 ^ k * PAGE_SIZE < (2::nat) ^ 64"
      by (rule le_less_trans [OF le f64])
    have "usub (free_size mm) (u64 (2 ^ k * PAGE_SIZE)) = free_size mm - 2 ^ k * PAGE_SIZE"
      unfolding u64_lt [OF n64] using le f64 by (rule usub_ge)
    then have "rmm_allocpages mm (2 ^ k) =
        Inr (p, mm1\<lparr>free_size := free_size mm - 2 ^ k * PAGE_SIZE\<rparr>)"
      using r a ptr fs by (simp add: rmm_allocpages_def IS_POW2_pow2 [OF k] order_loop_pow2)
    with False ptr(2) le show ?thesis by simp
  qed
qed

lemma ex_alloc4: "map_sum id fst (rmm_allocpages rmm_example (2 ^ 2)) = Inr 4096"
  by (simp add: rmm_allocpages_def rmm_example_def pmm_eval order_loop.simps rmm_allocpages1.simps)

theorem rmm_allocpages_null_iff_no_free_block_witness:
  "rmm_wf rmm_example \<and> (2::nat) < 64 \<and>
   ((\<exists>mm'. rmm_allocpages rmm_example (2 ^ 2) = Inr (0, mm')) \<longleftrightarrow>
      (\<forall>j. 2 \<le> j \<and> j \<le> MAX_ORDER \<longrightarrow> freelists rmm_example j = [])) \<and>
   fst (projr (rmm_allocpages rmm_example (2 ^ 2))) = 4096 \<and>
   free_size (snd (projr (rmm_allocpages rmm_example (2 ^ 2)))) + 2 ^ 2 * PAGE_SIZE =
     free_size rmm_example"
proof -
  have k: "(2::nat) < 64" by simp
  note t = rmm_allocpages_null_iff_no_free_block [OF rmm_example_wf k]
  note t1 = t [THEN conjunct1]
  note t3 = t [THEN conjunct2, THEN conjunct2, rule_format]
  obtain p mm' where r: "rmm_allocpages rmm_example (2 ^ 2) = Inr (p, mm')" and p: "p = 4096"
    using ex_alloc4 by (cases "rmm_allocpages rmm_example (2 ^ 2)") auto
  have p0: "p \<noteq> 0" using p by simp
  have e1: "fst (projr (rmm_allocpages rmm_example (2 ^ 2))) = 4096"
    by (simp only: r p sum.sel fst_conv)
  have e2: "free_size (snd (projr (rmm_allocpages rmm_example (2 ^ 2)))) + 2 ^ 2 * PAGE_SIZE =
     free_size rmm_example"
    using t3 [OF conjI [OF r p0]] by (simp only: r sum.sel snd_conv)
  from rmm_example_wf k t1 e1 e2 show ?thesis
    by (intro conjI)
qed

lemma seed_order_big: "seed_order_loop 1048576 (- 1) = 20"
  by (simp add: seed_order_loop.simps)

lemma floor_pow2_big: "FLOOR_POW2 2097152 = 2097152" "FLOOR_POW2 1048576 = 1048576"
  by (simp_all add: FLOOR_POW2.simps)

lemma rmm_seed_big:
  "rmm_seed \<lparr>start_addr = 65536, end_addr = 8590000128, free_size = 8589934592,
       bitsets = (\<lambda>order. {}), freelists = (\<lambda>order. [])\<rparr> 65536 2097152 = Inr rmm_example_big"
  by (simp add: rmm_seed.simps [of _ _ 2097152] rmm_seed.simps [of _ _ 1048576]
      rmm_seed.simps [of _ _ 0] floor_pow2_big seed_order_big pmm_eval rmm_example_big_def)
    (simp only: numeral_2_eq_2)

lemma rmm_create_big: "rmm_create 544 8 65536 (2 ^ 33 + 529000) = Inr (Some rmm_example_big)"
  by (simp add: rmm_create_def pmm_eval bset20 upt_rec rmm_seed_big)

lemma big_alloc: "map_sum id fst (rmm_allocpages rmm_example_big (2 ^ 20)) = Inr 4295032832"
  by (simp add: rmm_allocpages_def rmm_example_big_def pmm_eval order_loop.simps rmm_allocpages1.simps)

lemma big_run:
  "map_sum id (\<lambda>mm. (freelists mm 20, free_size mm))
     (rmm_run rmm_example_big [Alloc (2 ^ 20), Free 4295032832]) = Inr ([], 8589934592)"
  by (simp add: rmm_allocpages_def rmm_freepages_def rmm_example_big_def pmm_eval order_loop.simps
      rmm_allocpages1.simps rmm_freepages1.simps)

text \<open>
  C1 (buddy balance), evaluated on the manager with two blocks of order \<open>MAX_ORDER\<close>:
  \<open>rmm_create\<close> seeds both blocks on free list 20; allocating \<open>2 ^ 20\<close> pages and freeing
  them again finds the buddy's bit clear, unlinks the buddy and recurses to order 21, where
  \<open>rmm_freepages1\<close> returns -1: neither block is put back, although \<open>free_size\<close> returns to
  its initial value.
\<close>

theorem rmm_free_at_max_order_drops_both_blocks:
  "rmm_create 544 8 65536 (2 ^ 33 + 529000) = Inr (Some rmm_example_big) \<and>
   freelists rmm_example_big 20 = [65536, 4295032832] \<and>
   free_size rmm_example_big = 8589934592 \<and>
   map_sum id fst (rmm_allocpages rmm_example_big (2 ^ 20)) = Inr 4295032832 \<and>
   map_sum id (\<lambda>mm. (freelists mm 20, free_size mm))
     (rmm_run rmm_example_big [Alloc (2 ^ 20), Free 4295032832]) = Inr ([], 8589934592)"
  using rmm_create_big big_alloc big_run by (simp add: rmm_example_big_def)

section \<open>Properties of the translation cache\<close>

lemma page_mask_eq: "VM_ADDR_PAGE_MASK = NOT (mask PAGE_SIZE_BITS)"
  unfolding VM_ADDR_PAGE_MASK_def PAGE_SIZE_def
  by (simp add: mask_eq_exp_minus_1 bit_eq_iff bit_simps)

lemma offs_mask_eq: "VM_ADDR_OFFS_MASK = mask PAGE_SIZE_BITS"
  unfolding VM_ADDR_OFFS_MASK_def
  by (simp add: mask_eq_exp_minus_1 push_bit_eq_mult)

lemma page_size_minus1: "(of_nat PAGE_SIZE - 1 :: 64 word) = mask PAGE_SIZE_BITS"
  unfolding PAGE_SIZE_def by (simp add: mask_eq_exp_minus_1)

lemma vfn_page_addr: "VM_VFN (VM_PAGE_ADDR v) = VM_VFN v"
  unfolding VM_VFN_def VM_PAGE_ADDR_def page_mask_eq
  by (rule bit_eqI) (auto simp add: bit_simps dest: bit_imp_le_length)

lemma page_addr_offset: "VM_PAGE_ADDR v + VM_ADDR_OFFSET v = v"
  unfolding VM_PAGE_ADDR_def VM_ADDR_OFFSET_def page_mask_eq offs_mask_eq
proof -
  have "(v AND NOT (mask PAGE_SIZE_BITS)) + (v AND mask PAGE_SIZE_BITS)
        = (v AND NOT (mask PAGE_SIZE_BITS)) OR (v AND mask PAGE_SIZE_BITS)"
    by (rule disjunctive_add_eq_or) (rule bit_eqI, simp add: bit_simps)
  also have "\<dots> = v"
    by (rule bit_eqI) (auto simp add: bit_simps)
  finally show "(v AND NOT (mask PAGE_SIZE_BITS)) + (v AND mask PAGE_SIZE_BITS) = v" .
qed

lemma page_addr_not_ones: "VM_PAGE_ADDR v \<noteq> - 1"
proof
  assume "VM_PAGE_ADDR v = - 1"
  then have "bit (VM_PAGE_ADDR v) 0 = bit (- 1 :: 64 word) 0" by simp
  then show False
    unfolding VM_PAGE_ADDR_def page_mask_eq PAGE_SIZE_BITS_def
    by (simp add: bit_simps)
qed

lemma vm_cache_add_Inr:
  assumes "vm_cache_add c vp hp = Inr (d, c')"
  shows "IS_ALIGN2_u64 vp (of_nat PAGE_SIZE)" "IS_ALIGN2_u64 hp (of_nat PAGE_SIZE)"
    "d = hp - vp"
    "c' = c\<lparr>entries := (entries c)(VM_CACHE_ENTRY vp := \<lparr>haddr_diff = hp - vp, tag = vp\<rparr>)\<rparr>"
  using assms by (auto simp add: vm_cache_add_def Let_def split: if_splits)

lemma aligned_page_addr:
  "IS_ALIGN2_u64 vp (of_nat PAGE_SIZE) \<Longrightarrow> VM_PAGE_ADDR vp = vp"
proof -
  assume a: "IS_ALIGN2_u64 vp (of_nat PAGE_SIZE)"
  have "VM_PAGE_ADDR vp + VM_ADDR_OFFSET vp = vp" by (rule page_addr_offset)
  moreover have "VM_ADDR_OFFSET vp = 0"
    using a by (simp add: IS_ALIGN2_u64_def VM_ADDR_OFFSET_def offs_mask_eq page_size_minus1)
  ultimately show ?thesis by simp
qed

text \<open>
  C8: after \<open>vm_cache_add(cache, vpaddr, hpaddr)\<close> with both arguments page-aligned,
  \<open>vm_cache_lookup(cache, v, 1)\<close> returns \<open>hpaddr\<close> plus the page offset of \<open>v\<close> for every
  \<open>v\<close> on the page \<open>vpaddr\<close>; after \<open>vm_cache_invalidate_one(cache, v)\<close> the lookup of \<open>v\<close>
  returns 0.
\<close>

theorem vm_cache_add_lookup_roundtrip:
  assumes "IS_ALIGN2_u64 vpaddr (of_nat PAGE_SIZE)" and "IS_ALIGN2_u64 hpaddr (of_nat PAGE_SIZE)"
  shows "\<exists>d cache'. vm_cache_add cache vpaddr hpaddr = Inr (d, cache') \<and>
           (\<forall>v. VM_PAGE_ADDR v = vpaddr \<longrightarrow>
                vm_cache_lookup cache' v 1 = hpaddr + VM_ADDR_OFFSET v) \<and>
           (\<forall>c v. vm_cache_lookup (vm_cache_invalidate_one c v) v 1 = 0)"
proof -
  let ?c = "cache\<lparr>entries := (entries cache)(VM_CACHE_ENTRY vpaddr := \<lparr>haddr_diff = hpaddr - vpaddr, tag = vpaddr\<rparr>)\<rparr>"
  have add: "vm_cache_add cache vpaddr hpaddr = Inr (hpaddr - vpaddr, ?c)"
    using assms by (simp add: vm_cache_add_def Let_def)
  have hit: "vm_cache_lookup ?c v 1 = hpaddr + VM_ADDR_OFFSET v" if pv: "VM_PAGE_ADDR v = vpaddr" for v
  proof -
    have idx: "VM_VFN v AND VM_CACHE_INDEX_VFN_MASK = VM_CACHE_ENTRY vpaddr"
      using vfn_page_addr [of v] pv by (simp add: VM_CACHE_ENTRY_def)
    have ex: "v AND (VM_ADDR_PAGE_MASK XOR (1 - 1)) = vpaddr"
      using pv by (simp add: VM_PAGE_ADDR_def)
    have "hpaddr - vpaddr + (vpaddr + x) = hpaddr + x" for x :: "64 word"
      by simp
    note c = this [of "VM_ADDR_OFFSET v"]
    have e: "v = vpaddr + VM_ADDR_OFFSET v"
      using page_addr_offset [of v] pv by simp
    have "hpaddr - vpaddr + v = hpaddr - vpaddr + (vpaddr + VM_ADDR_OFFSET v)"
      by (rule arg_cong [where f = "\<lambda>x. hpaddr - vpaddr + x", OF e])
    with c have "hpaddr - vpaddr + v = hpaddr + VM_ADDR_OFFSET v"
      by (rule trans [rotated])
    then show ?thesis
      unfolding vm_cache_lookup_def Let_def idx ex by simp
  qed
  have miss: "vm_cache_lookup (vm_cache_invalidate_one c v) v 1 = 0" for c v
  proof -
    have "v AND (VM_ADDR_PAGE_MASK XOR (1 - 1)) \<noteq> - 1"
      using page_addr_not_ones [of v] by (simp add: VM_PAGE_ADDR_def)
    then show ?thesis
      by (simp add: vm_cache_lookup_def vm_cache_invalidate_one_def VM_CACHE_ENTRY_def
          vm_cache_ent_invalid_def Let_def)
  qed
  show ?thesis using add hit miss by blast
qed

theorem vm_cache_add_lookup_roundtrip_witness:
  "vm_cache_lookup (snd (projr (vm_cache_add vm_cache_init 0xdeadb000 0x1044f000))) 0xdeadbeef 1 = 0x1044feef \<and>
   vm_cache_lookup (vm_cache_invalidate_one
      (snd (projr (vm_cache_add vm_cache_init 0xdeadb000 0x1044f000))) 0xdeadbeef) 0xdeadbeef 1 = 0"
proof -
  have a1: "IS_ALIGN2_u64 0xdeadb000 (of_nat PAGE_SIZE)"
    by (simp add: IS_ALIGN2_u64_def PAGE_SIZE_def PAGE_SIZE_BITS_def)
  have a2: "IS_ALIGN2_u64 0x1044f000 (of_nat PAGE_SIZE)"
    by (simp add: IS_ALIGN2_u64_def PAGE_SIZE_def PAGE_SIZE_BITS_def)
  have pg: "VM_PAGE_ADDR 0xdeadbeef = 0xdeadb000"
    by (simp add: VM_PAGE_ADDR_def VM_ADDR_PAGE_MASK_def PAGE_SIZE_def PAGE_SIZE_BITS_def)
  have off: "VM_ADDR_OFFSET 0xdeadbeef = 0xeef"
    by (simp add: VM_ADDR_OFFSET_def VM_ADDR_OFFS_MASK_def PAGE_SIZE_BITS_def)
  from vm_cache_add_lookup_roundtrip [OF a1 a2, of vm_cache_init]
  obtain d c' where add: "vm_cache_add vm_cache_init 0xdeadb000 0x1044f000 = Inr (d, c')"
    and hit: "\<forall>v. VM_PAGE_ADDR v = 0xdeadb000 \<longrightarrow> vm_cache_lookup c' v 1 = 0x1044f000 + VM_ADDR_OFFSET v"
    and miss: "\<forall>c v. vm_cache_lookup (vm_cache_invalidate_one c v) v 1 = 0"
    by blast
  from hit pg have "vm_cache_lookup c' 0xdeadbeef 1 = 0x1044f000 + VM_ADDR_OFFSET 0xdeadbeef"
    by blast
  then show ?thesis using add miss off by simp
qed

lemma index_mask_eq: "VM_CACHE_INDEX_VFN_MASK = mask VM_CACHE_INDEX_BITS"
  unfolding VM_CACHE_INDEX_VFN_MASK_def
  by (simp add: mask_eq_exp_minus_1 push_bit_eq_mult)






lemma split_at_mask:
  fixes v :: "64 word"
  shows "(v AND NOT (mask j)) + (v AND mask j) = v"
proof -
  have "(v AND NOT (mask j)) + (v AND mask j) = (v AND NOT (mask j)) OR (v AND mask j)"
    by (rule disjunctive_add_eq_or) (rule bit_eqI, simp add: bit_simps)
  also have "\<dots> = v"
    by (rule bit_eqI) (auto simp add: bit_simps)
  finally show ?thesis .
qed

text \<open>
  The two exceptions cannot be dropped. Above \<open>PAGE_SIZE\<close> times the number of cache entries,
  the bits that \<open>A - 1\<close> removes from the tag are no longer all part of the cache index: every
  \<open>v\<close> aligned to that bound but not to \<open>A\<close> hits in the cache that holds the \<open>A\<close>-aligned page
  below it.
\<close>

lemma vm_cache_lookup_wide_alignment_hit:
  assumes j: "PAGE_SIZE_BITS + VM_CACHE_INDEX_BITS < j" "j < 64"
    and al: "IS_ALIGN2_u64 v (2 ^ (PAGE_SIZE_BITS + VM_CACHE_INDEX_BITS))"
    and mis: "\<not> IS_ALIGN2_u64 v (2 ^ j)"
  shows "\<exists>c. vm_cache_reachable c \<and> vm_cache_lookup c v (2 ^ j) \<noteq> 0"
proof -
  define t where "t = v AND NOT (mask j)"
  define hp :: "64 word" where "hp = of_nat PAGE_SIZE"
  define c where "c = vm_cache_init\<lparr>entries := (entries vm_cache_init)
     (VM_CACHE_ENTRY t := \<lparr>haddr_diff = hp - t, tag = t\<rparr>)\<rparr>"
  have m: "(2 ^ k - 1 :: 64 word) = mask k" for k by (simp add: mask_eq_exp_minus_1)
  from al have "v AND mask (PAGE_SIZE_BITS + VM_CACHE_INDEX_BITS) = 0"
    by (simp add: IS_ALIGN2_u64_def m)
  then have "\<not> bit (v AND mask (PAGE_SIZE_BITS + VM_CACHE_INDEX_BITS)) n" for n by simp
  then have "\<not> (bit v n \<and> n < PAGE_SIZE_BITS + VM_CACHE_INDEX_BITS)" for n
    using bit_imp_le_length [of v n] by (auto simp add: bit_simps)
  then have low: "\<not> bit v n" if "n < PAGE_SIZE_BITS + VM_CACHE_INDEX_BITS" for n
    using that by blast
  have bt: "bit t n \<longleftrightarrow> bit v n \<and> j \<le> n" for n
    unfolding t_def by (auto simp add: bit_simps dest: bit_imp_le_length)
  have ta: "IS_ALIGN2_u64 t (of_nat PAGE_SIZE)"
    unfolding IS_ALIGN2_u64_def page_size_minus1
    by (rule bit_eqI) (use j in \<open>auto simp add: bit_simps bt\<close>)
  have ha: "IS_ALIGN2_u64 hp (of_nat PAGE_SIZE)"
    by (simp add: IS_ALIGN2_u64_def hp_def PAGE_SIZE_def PAGE_SIZE_BITS_def)
  have add: "vm_cache_add vm_cache_init t hp = Inr (hp - t, c)"
    using ta ha by (simp add: vm_cache_add_def c_def Let_def)
  have r: "vm_cache_reachable c"
    by (rule reach_add [OF reach_init add])
  have ix: "VM_VFN v AND VM_CACHE_INDEX_VFN_MASK = VM_CACHE_ENTRY t"
    unfolding VM_CACHE_ENTRY_def VM_VFN_def index_mask_eq
    by (rule bit_eqI) (use j low in \<open>auto simp add: bit_simps bt\<close>)
  have tg: "v AND (VM_ADDR_PAGE_MASK XOR (2 ^ j - 1)) = t"
    unfolding page_mask_eq m
    by (rule bit_eqI) (use j low in \<open>auto simp add: bit_simps bt\<close>)
  have l: "vm_cache_lookup c v (2 ^ j) = hp - t + v"
    by (simp add: vm_cache_lookup_def Let_def ix tg c_def)
  have "hp - t + v = hp + (v - t)" by simp
  also have "v - t = v AND mask j"
    using split_at_mask [of v j] by (simp add: t_def algebra_simps)
  finally have e: "hp - t + v = hp + (v AND mask j)" .
  have "hp + (v AND mask j) \<noteq> 0"
  proof
    assume "hp + (v AND mask j) = 0"
    then have "v AND mask j = - hp" by (simp add: add_eq_0_iff)
    then have "bit (v AND mask j) PAGE_SIZE_BITS = bit (- hp) PAGE_SIZE_BITS" by simp
    moreover have "- hp = NOT (mask PAGE_SIZE_BITS)"
      by (simp add: hp_def PAGE_SIZE_def PAGE_SIZE_BITS_def mask_eq_exp_minus_1 not_eq_complement)
    ultimately show False
      using low [of PAGE_SIZE_BITS]
      by (simp add: bit_simps PAGE_SIZE_BITS_def VM_CACHE_INDEX_BITS_def)
  qed
  with l e r show ?thesis by auto
qed


subsection \<open>The miss handler and the page directory\<close>

lemma aligned_drop_push:
  fixes t :: "64 word"
  assumes "IS_ALIGN2_u64 t (of_nat PAGE_SIZE)"
  shows "push_bit PAGE_SIZE_BITS (drop_bit PAGE_SIZE_BITS t) = t"
proof -
  have "t AND mask PAGE_SIZE_BITS = 0"
    using assms by (simp add: IS_ALIGN2_u64_def page_size_minus1)
  then have "take_bit PAGE_SIZE_BITS t = 0" by (simp add: take_bit_eq_mask)
  moreover have "push_bit PAGE_SIZE_BITS (drop_bit PAGE_SIZE_BITS t) + take_bit PAGE_SIZE_BITS t = t"
    by (simp add: push_bit_eq_mult drop_bit_eq_div take_bit_eq_mod div_mult_mod_eq)
  ultimately show ?thesis by simp
qed

lemma aligned_drop_nonzero:
  fixes t :: "64 word"
  assumes "IS_ALIGN2_u64 t (of_nat PAGE_SIZE)" and "t \<noteq> 0"
  shows "drop_bit PAGE_SIZE_BITS t \<noteq> 0"
proof
  assume "drop_bit PAGE_SIZE_BITS t = 0"
  then have "push_bit PAGE_SIZE_BITS (drop_bit PAGE_SIZE_BITS t) = 0" by simp
  with aligned_drop_push [OF assms(1)] assms(2) show False by simp
qed

lemma vm_ptab_create_hostmem:
  assumes "vm_ptab_create pd = Inr (t, pd1)" and "t \<noteq> 0"
  shows "hostmem pd1 = (\<lambda>a. if a - t < of_nat VM_PTAB_SIZE then 0 else hostmem pd a)"
    and "root pd1 = root pd"
  using assms
  by (auto simp add: vm_ptab_create_def Let_def VM_ZERO_PAGES_def
      split: sum.splits prod.splits if_splits)

lemma walk_stable:
  assumes "vm_pagedir_walk pd masked_vfn bits ptab level = Inr (pte, pd')"
    and "vm_walk_fresh pd masked_vfn bits ptab level path"
  shows "vm_pagedir_walk pd' masked_vfn bits ptab level = Inr (pte, pd') \<and>
         root pd' = root pd \<and>
         (\<forall>s \<in> set path. hostmem pd s \<noteq> 0 \<longrightarrow> hostmem pd' s = hostmem pd s)"
  using assms
proof (induction pd masked_vfn bits ptab level arbitrary: path rule: vm_pagedir_walk.induct)
  case (1 pd masked_vfn bits ptab level)
  define index where "index = getbits masked_vfn (VFN_BITS - (1 + bits)) VM_PTAB_BITS"
  define s where "s = ptab + 8 * index"
  define bits2 where "bits2 = bits + VM_PTAB_BITS"
  define masked2 where "masked2 = getbits masked_vfn (VFN_BITS - (1 + bits2)) (VFN_BITS - bits2)"
  note w = vm_pagedir_walk.simps [of _ masked_vfn bits ptab level, unfolded Let_def,
      folded index_def, folded s_def, folded bits2_def, folded masked2_def]
  note f = vm_walk_fresh.simps [of _ masked_vfn bits ptab level, unfolded Let_def,
      folded index_def, folded s_def, folded bits2_def, folded masked2_def]
  show ?case
  proof (cases "level = VM_PTAB_LEVELS")
    case leaf: True
    have wl: "vm_pagedir_walk q masked_vfn bits ptab level =
        (if hostmem q s = 0 then vm_pagedir_alloc_backing_page q s else Inr (hostmem q s, q))" for q
      by (subst w) (simp add: leaf)
    show ?thesis
    proof (cases "hostmem pd s = 0")
      case True
      from "1.prems"(1) have a: "vm_pagedir_alloc_backing_page pd s = Inr (pte, pd')"
        by (simp add: wl True)
      then have pte: "pte \<noteq> 0" and m: "hostmem pd' = (hostmem pd)(s := pte)"
        and rt: "root pd' = root pd"
        by (auto simp add: vm_pagedir_alloc_backing_page_def Let_def
            split: sum.splits prod.splits if_splits)
      have "vm_pagedir_walk pd' masked_vfn bits ptab level = Inr (pte, pd')"
        using pte m by (simp add: wl)
      moreover have "\<forall>s' \<in> set path. hostmem pd s' \<noteq> 0 \<longrightarrow> hostmem pd' s' = hostmem pd s'"
        using m True by auto
      ultimately show ?thesis using rt by simp
    next
      case False
      with "1.prems"(1) have "pte = hostmem pd s" "pd' = pd"
        by (auto simp add: wl)
      with False show ?thesis by (simp add: wl)
    qed
  next
    case inner: False
    have wi: "vm_pagedir_walk q masked_vfn bits ptab level =
        (if hostmem q s \<noteq> 0 then
           vm_pagedir_walk q masked2 bits2 (push_bit PAGE_SIZE_BITS (hostmem q s)) (level + 1)
         else
           case vm_ptab_create q of
             Inl e \<Rightarrow> Inl e
           | Inr (ptab2, pd1) \<Rightarrow>
               if ptab2 = 0 then Inl VmPanicked
               else if \<not> IS_ALIGN2_u64 ptab2 (of_nat PAGE_SIZE) then Inl VmAssert
               else vm_pagedir_walk
                      (pd1\<lparr>hostmem := (hostmem pd1)(s := drop_bit PAGE_SIZE_BITS ptab2)\<rparr>)
                      masked2 bits2 ptab2 (level + 1))" for q
      by (subst w) (simp add: inner)
    have fi: "vm_walk_fresh q masked_vfn bits ptab level p =
        (if hostmem q s \<noteq> 0 then
           vm_walk_fresh q masked2 bits2 (push_bit PAGE_SIZE_BITS (hostmem q s)) (level + 1) (s # p)
         else
           case vm_ptab_create q of
             Inl e \<Rightarrow> True
           | Inr (ptab2, pd1) \<Rightarrow>
               if ptab2 = 0 then True
               else if \<not> IS_ALIGN2_u64 ptab2 (of_nat PAGE_SIZE) then True
               else list_all (\<lambda>s. \<not> s - ptab2 < of_nat VM_PTAB_SIZE) p \<and>
                    vm_walk_fresh
                      (pd1\<lparr>hostmem := (hostmem pd1)(s := drop_bit PAGE_SIZE_BITS ptab2)\<rparr>)
                      masked2 bits2 ptab2 (level + 1) (s # p))" for q p
      by (subst f) (simp add: inner)
    show ?thesis
    proof (cases "hostmem pd s = 0")
      case False
      let ?t = "push_bit PAGE_SIZE_BITS (hostmem pd s)"
      from "1.prems"(1) have r: "vm_pagedir_walk pd masked2 bits2 ?t (level + 1) = Inr (pte, pd')"
        by (simp add: wi False)
      from "1.prems"(2) have fr: "vm_walk_fresh pd masked2 bits2 ?t (level + 1) (s # path)"
        by (simp add: fi False)
      have nz: "hostmem pd (ptab + 8 * index) \<noteq> 0" using False by (simp add: s_def)
      have ih: "vm_pagedir_walk pd' masked2 bits2 ?t (level + 1) = Inr (pte, pd') \<and>
         root pd' = root pd \<and>
         (\<forall>s' \<in> set (s # path). hostmem pd s' \<noteq> 0 \<longrightarrow> hostmem pd' s' = hostmem pd s')"
        by (rule "1.IH"(1) [OF index_def refl inner bits2_def masked2_def nz
              r [unfolded s_def] fr [unfolded s_def], folded s_def])
      then have same: "hostmem pd' s = hostmem pd s" using False by simp
      have "vm_pagedir_walk pd' masked_vfn bits ptab level = Inr (pte, pd')"
        using ih same False by (simp add: wi)
      with ih show ?thesis by simp
    next
      case True
      from "1.prems"(1) obtain ptab2 pd1 where
        c: "vm_ptab_create pd = Inr (ptab2, pd1)" and nz: "ptab2 \<noteq> 0"
        and al: "IS_ALIGN2_u64 ptab2 (of_nat PAGE_SIZE)"
        and r: "vm_pagedir_walk
                  (pd1\<lparr>hostmem := (hostmem pd1)(s := drop_bit PAGE_SIZE_BITS ptab2)\<rparr>)
                  masked2 bits2 ptab2 (level + 1) = Inr (pte, pd')"
        by (auto simp add: wi True split: sum.splits prod.splits if_splits)
      let ?pd2 = "pd1\<lparr>hostmem := (hostmem pd1)(s := drop_bit PAGE_SIZE_BITS ptab2)\<rparr>"
      from "1.prems"(2) c nz al have
        out: "list_all (\<lambda>s. \<not> s - ptab2 < of_nat VM_PTAB_SIZE) path"
        and fr: "vm_walk_fresh ?pd2 masked2 bits2 ptab2 (level + 1) (s # path)"
        by (simp_all add: fi True)
      have z: "\<not> hostmem pd (ptab + 8 * index) \<noteq> 0" using True by (simp add: s_def)
      have ih: "vm_pagedir_walk pd' masked2 bits2 ptab2 (level + 1) = Inr (pte, pd') \<and>
         root pd' = root ?pd2 \<and>
         (\<forall>s' \<in> set (s # path). hostmem ?pd2 s' \<noteq> 0 \<longrightarrow> hostmem pd' s' = hostmem ?pd2 s')"
        by (rule "1.IH"(2) [OF index_def refl inner bits2_def masked2_def z c refl nz
              _ r [unfolded s_def] fr [unfolded s_def], folded s_def]) (simp add: al)
      have e: "hostmem ?pd2 s = drop_bit PAGE_SIZE_BITS ptab2" by simp
      have enz: "drop_bit PAGE_SIZE_BITS ptab2 \<noteq> 0" by (rule aligned_drop_nonzero [OF al nz])
      from ih e enz have same: "hostmem pd' s = drop_bit PAGE_SIZE_BITS ptab2" by simp
      have "vm_pagedir_walk pd' masked_vfn bits ptab level = Inr (pte, pd')"
        using ih same enz by (simp add: wi aligned_drop_push [OF al])
      moreover have "hostmem pd' s' = hostmem pd s'" if s': "s' \<in> set path" "hostmem pd s' \<noteq> 0" for s'
      proof -
        from s' True have ne: "s' \<noteq> s" by auto
        from out s'(1) have "\<not> s' - ptab2 < of_nat VM_PTAB_SIZE" by (simp add: list_all_iff)
        then have "hostmem pd1 s' = hostmem pd s'"
          by (simp add: vm_ptab_create_hostmem(1) [OF c nz])
        with ne have h2: "hostmem ?pd2 s' = hostmem pd s'" by simp
        with ih s' show ?thesis by simp
      qed
      moreover have "root pd' = root pd"
        using ih vm_ptab_create_hostmem(2) [OF c nz] by simp
      ultimately show ?thesis by blast
    qed
  qed
qed

lemma aligned_tag:
  fixes v a :: "64 word"
  assumes "IS_ALIGN2_u64 v a"
  shows "v AND (VM_ADDR_PAGE_MASK XOR (a - 1)) = VM_PAGE_ADDR v"
proof (rule bit_eqI)
  fix n
  assume "possible_bit TYPE(64 word) n"
  from assms have "v AND (a - 1) = 0" by (simp add: IS_ALIGN2_u64_def)
  then have "bit (v AND (a - 1)) n = bit (0 :: 64 word) n" by simp
  then have "\<not> (bit v n \<and> bit (a - 1) n)" by (simp add: bit_and_iff)
  then show "bit (v AND (VM_ADDR_PAGE_MASK XOR (a - 1))) n = bit (VM_PAGE_ADDR v) n"
    by (auto simp add: VM_PAGE_ADDR_def bit_and_iff bit_xor_iff)
qed

lemma vm_cache_miss_Inr:
  assumes "vm_cache_miss cache pd vaddr op = Inr (d, cache', pd')"
    and "vm_miss_hpaddr pd vaddr \<noteq> 0"
  shows "\<exists>pte. vm_pagedir_lookup_pte pd (VM_VFN vaddr) = Inr (pte, pd') \<and>
           vm_miss_hpaddr pd vaddr = push_bit PAGE_SIZE_BITS pte \<and>
           vm_cache_add cache (VM_PAGE_ADDR vaddr) (push_bit PAGE_SIZE_BITS pte) = Inr (d, cache')"
    and "IS_ALIGN2_u64 vaddr (VM_OP_ALIGNMENT op)"
    and "VM_ADDR_MIN \<le> vaddr" and "vaddr \<le> VM_ADDR_MAX"
  using assms
  by (auto simp add: vm_cache_miss_def vm_miss_hpaddr_def Let_def
      split: if_splits sum.splits prod.splits)

text \<open>
  C3. After a call of the miss handler \<open>_vm_cache_miss(cache, pagedir, vaddr, op)\<close> that returns
  with a host page (\<open>hpaddr\<close> not 0): \<open>vaddr\<close> is within \<open>[VM_ADDR_MIN, VM_ADDR_MAX]\<close> and
  aligned to the alignment of \<open>op\<close>; \<open>vm_cache_lookup\<close> with that alignment is a hit and returns
  the host page address the handler found plus the page offset of \<open>vaddr\<close>. That address is
  what \<open>vm_pagedir_translate\<close> returns on the page directory as the handler left it, when the
  walk repeated there yields the page-table entry of the handler's walk. And the repeated walk
  does so, leaving the page directory as it is, when the pages handed out for new page tables
  during the handler's walk are apart from the entries that walk passed through.
\<close>

theorem vm_cache_miss_then_lookup_is_translate:
  assumes "vm_cache_miss cache pd vaddr op = Inr (d, cache', pd')"
    and "vm_miss_hpaddr pd vaddr \<noteq> 0"
  shows "VM_ADDR_MIN \<le> vaddr \<and> vaddr \<le> VM_ADDR_MAX \<and>
         IS_ALIGN2_u64 vaddr (VM_OP_ALIGNMENT op) \<and>
         vm_cache_hit cache' vaddr (VM_OP_ALIGNMENT op) \<and>
         vm_cache_lookup cache' vaddr (VM_OP_ALIGNMENT op) =
           vm_miss_hpaddr pd vaddr + VM_ADDR_OFFSET vaddr \<and>
         (map_sum id fst (vm_pagedir_lookup_pte pd' (VM_VFN vaddr)) =
            map_sum id fst (vm_pagedir_lookup_pte pd (VM_VFN vaddr)) \<longrightarrow>
            map_sum id fst (vm_pagedir_translate pd' vaddr) =
              Inr (vm_cache_lookup cache' vaddr (VM_OP_ALIGNMENT op))) \<and>
         (vm_lookup_fresh pd (VM_VFN vaddr) \<longrightarrow>
            vm_pagedir_translate pd' vaddr =
              Inr (vm_cache_lookup cache' vaddr (VM_OP_ALIGNMENT op), pd'))"
proof -
  from vm_cache_miss_Inr(1) [OF assms] obtain pte where
    l: "vm_pagedir_lookup_pte pd (VM_VFN vaddr) = Inr (pte, pd')"
    and h: "vm_miss_hpaddr pd vaddr = push_bit PAGE_SIZE_BITS pte"
    and a: "vm_cache_add cache (VM_PAGE_ADDR vaddr) (push_bit PAGE_SIZE_BITS pte) = Inr (d, cache')"
    by blast
  note al = vm_cache_miss_Inr(2) [OF assms]
  let ?vp = "VM_PAGE_ADDR vaddr"
  let ?hp = "push_bit PAGE_SIZE_BITS pte :: 64 word"
  have c': "cache' = cache\<lparr>entries := (entries cache)
              (VM_CACHE_ENTRY ?vp := \<lparr>haddr_diff = ?hp - ?vp, tag = ?vp\<rparr>)\<rparr>"
    by (rule vm_cache_add_Inr(4) [OF a])
  have idx: "VM_VFN vaddr AND VM_CACHE_INDEX_VFN_MASK = VM_CACHE_ENTRY ?vp"
    by (simp add: VM_CACHE_ENTRY_def vfn_page_addr)
  have ent: "entries cache' (VM_VFN vaddr AND VM_CACHE_INDEX_VFN_MASK) =
               \<lparr>haddr_diff = ?hp - ?vp, tag = ?vp\<rparr>"
    by (simp add: c' idx)
  have tg: "vaddr AND (VM_ADDR_PAGE_MASK XOR (VM_OP_ALIGNMENT op - 1)) = ?vp"
    by (rule aligned_tag [OF al])
  have hit: "vm_cache_hit cache' vaddr (VM_OP_ALIGNMENT op)"
    by (simp add: vm_cache_hit_def ent tg)
  have "?hp - ?vp + vaddr = ?hp + (vaddr - ?vp)" by simp
  also have "vaddr - ?vp = VM_ADDR_OFFSET vaddr"
    using page_addr_offset [of vaddr] by (simp add: algebra_simps)
  finally have sum: "?hp - ?vp + vaddr = ?hp + VM_ADDR_OFFSET vaddr" .
  have lk: "vm_cache_lookup cache' vaddr (VM_OP_ALIGNMENT op) = ?hp + VM_ADDR_OFFSET vaddr"
    by (simp add: vm_cache_lookup_def Let_def ent tg sum)
  have tr: "vm_pagedir_translate pd' vaddr =
              Inr (vm_cache_lookup cache' vaddr (VM_OP_ALIGNMENT op), pd')"
    if fresh: "vm_lookup_fresh pd (VM_VFN vaddr)"
  proof -
    from l have pos: "VM_VFN vaddr > 0"
      and w: "vm_pagedir_walk pd (VM_VFN vaddr - 1) 0 (root pd) 1 = Inr (pte, pd')"
      by (auto simp add: vm_pagedir_lookup_pte_def split: if_splits)
    from fresh have f: "vm_walk_fresh pd (VM_VFN vaddr - 1) 0 (root pd) 1 []"
      by (simp add: vm_lookup_fresh_def)
    from walk_stable [OF w f]
    have rt: "root pd' = root pd"
      and "vm_pagedir_walk pd' (VM_VFN vaddr - 1) 0 (root pd) 1 = Inr (pte, pd')" by simp_all
    then have "vm_pagedir_lookup_pte pd' (VM_VFN vaddr) = Inr (pte, pd')"
      using pos by (simp add: vm_pagedir_lookup_pte_def rt)
    then show ?thesis by (simp add: vm_pagedir_translate_def lk)
  qed
  have rp: "map_sum id fst (vm_pagedir_translate pd' vaddr) =
              Inr (vm_cache_lookup cache' vaddr (VM_OP_ALIGNMENT op))"
    if same: "map_sum id fst (vm_pagedir_lookup_pte pd' (VM_VFN vaddr)) =
                map_sum id fst (vm_pagedir_lookup_pte pd (VM_VFN vaddr))"
  proof -
    from same l obtain pd'' where "vm_pagedir_lookup_pte pd' (VM_VFN vaddr) = Inr (pte, pd'')"
      by (cases "vm_pagedir_lookup_pte pd' (VM_VFN vaddr)") auto
    then show ?thesis by (simp add: vm_pagedir_translate_def lk)
  qed
  from vm_cache_miss_Inr(3,4) [OF assms] al hit lk h tr rp show ?thesis by simp
qed

lemmas vm_eval = vm_pagedir_lookup_pte_def vm_pagedir_example_def VM_VFN_def
  vm_pagedir_walk.simps vm_ptab_create_def vm_pagedir_alloc_backing_page_def getbits_def
  VFN_BITS_def VM_ADDR_BITS_def VM_PTAB_BITS_def VM_PTAB_LEVELS_def VM_PTAB_SIZE_def
  VM_ZERO_PAGES_def IS_ALIGN2_u64_def mask_eq_exp_minus_1
  rmm_allocpages_def rmm_example_def pmm_eval order_loop.simps rmm_allocpages1.simps

lemma ex_hpaddr: "vm_miss_hpaddr vm_pagedir_example 0xdeadbee4 = 4096"
  by (simp add: vm_miss_hpaddr_def vm_eval)

lemma ex_fresh: "vm_lookup_fresh vm_pagedir_example (VM_VFN 0xdeadbee4)"
  by (simp add: vm_lookup_fresh_def vm_walk_fresh.simps vm_eval)

lemma ex_miss: "\<exists>d c' pd'. vm_cache_miss vm_cache_init vm_pagedir_example 0xdeadbee4
     \<lparr>VM_OP_TYPE = VM_OP_LOAD, VM_OP_ALIGNMENT = 4\<rparr> = Inr (d, c', pd')"
  by (simp add: vm_cache_miss_def vm_cache_add_def VM_ADDR_MIN_def VM_ADDR_MAX_def
      VM_PAGE_ADDR_def VM_ADDR_PAGE_MASK_def vm_eval)

theorem vm_cache_miss_then_lookup_is_translate_witness:
  "vm_cache_lookup
     (fst (snd (projr (vm_cache_miss vm_cache_init vm_pagedir_example 0xdeadbee4
        \<lparr>VM_OP_TYPE = VM_OP_LOAD, VM_OP_ALIGNMENT = 4\<rparr>)))) 0xdeadbee4 4 = 0x1ee4 \<and>
   vm_pagedir_translate
     (snd (snd (projr (vm_cache_miss vm_cache_init vm_pagedir_example 0xdeadbee4
        \<lparr>VM_OP_TYPE = VM_OP_LOAD, VM_OP_ALIGNMENT = 4\<rparr>)))) 0xdeadbee4 =
     Inr (0x1ee4,
       snd (snd (projr (vm_cache_miss vm_cache_init vm_pagedir_example 0xdeadbee4
         \<lparr>VM_OP_TYPE = VM_OP_LOAD, VM_OP_ALIGNMENT = 4\<rparr>))))"
proof -
  let ?op = "\<lparr>VM_OP_TYPE = VM_OP_LOAD, VM_OP_ALIGNMENT = 4\<rparr>"
  from ex_miss obtain d c' pd' where
    r: "vm_cache_miss vm_cache_init vm_pagedir_example 0xdeadbee4 ?op = Inr (d, c', pd')"
    by blast
  have h: "vm_miss_hpaddr vm_pagedir_example 0xdeadbee4 \<noteq> 0"
    by (simp add: ex_hpaddr)
  note t = vm_cache_miss_then_lookup_is_translate [OF r h]
  have off: "VM_ADDR_OFFSET 0xdeadbee4 = 0xee4"
    by (simp add: VM_ADDR_OFFSET_def VM_ADDR_OFFS_MASK_def PAGE_SIZE_def PAGE_SIZE_BITS_def
        mask_eq_exp_minus_1)
  note t4 = t [THEN conjunct2, THEN conjunct2, THEN conjunct2, THEN conjunct2]
  have "vm_cache_lookup c' 0xdeadbee4 (VM_OP_ALIGNMENT ?op) =
      vm_miss_hpaddr vm_pagedir_example 0xdeadbee4 + VM_ADDR_OFFSET 0xdeadbee4"
    by (rule t4 [THEN conjunct1])
  then have l: "vm_cache_lookup c' 0xdeadbee4 4 = 0x1ee4"
    by (simp only: ex_hpaddr off vm_op.simps) simp
  have "vm_pagedir_translate pd' 0xdeadbee4 =
      Inr (vm_cache_lookup c' 0xdeadbee4 (VM_OP_ALIGNMENT ?op), pd')"
    by (rule t4 [THEN conjunct2, THEN conjunct2, THEN mp, OF ex_fresh])
  then have tr: "vm_pagedir_translate pd' 0xdeadbee4 = Inr (0x1ee4, pd')"
    by (simp only: vm_op.simps l)
  from l tr show ?thesis
    by (simp only: r sum.sel fst_conv snd_conv simp_thms)
qed


section \<open>Properties of the slab heaps\<close>

lemma bit_length_8: "bit_length 8 = 4"
  by (simp add: bit_length.simps)

lemma ILOG2_MIN_SIZE: "ILOG2 SLABHEAP_MIN_SIZE = 3"
  by (simp add: ILOG2_def rsm_fls_def rsm_clz_def SLABHEAP_MIN_SIZE_def bit_length_8)

lemma slabheaps_init_size: "size_sh (slabheaps_init i) = 8 * 2 ^ i"
  by (simp add: slabheaps_init_def ILOG2_MIN_SIZE nat_add_distrib power_add)

lemma slabheaps_init_lists: "usable (slabheaps_init i) = 0" "full (slabheaps_init i) = 0"
  by (simp_all add: slabheaps_init_def)

lemma slab_index_loop_count:
  "slab_index_loop a n 0 SLABHEAP_COUNT =
     (if n \<le> size_sh (slabheaps a 0) then Some 0
      else if n \<le> size_sh (slabheaps a 1) then Some 1
      else if n \<le> size_sh (slabheaps a 2) then Some 2
      else if n \<le> size_sh (slabheaps a 3) then Some 3
      else None)"
  by (simp add: SLABHEAP_COUNT_def numeral_eq_Suc)

text \<open>
  C5, evaluated at \<open>size = 1\<close>: \<open>kmem_alloc_size\<close> answers \<open>CEIL_POW2(1) = 1\<close>, while
  \<open>kmem_alloc_aligned\<close> with alignment 1 takes the chunk from the smallest slab heap and
  returns a region of \<open>SLABHEAP_MIN_SIZE = 8\<close> bytes.
\<close>

theorem kmem_alloc_size_below_min_slab:
  "kmem_alloc_size 1 = Some 1 \<and>
   map_sum id (\<lambda>r. (start (fst r), size_r (fst r))) (kmem_alloc_aligned kmem_example 1 1)
     = Inr (0x100018, 8)"
proof -
  have "kmem_alloc_size 1 = Some 1"
    by (simp add: kmem_alloc_size_def CEIL_POW2_def Let_def ILOG2_MIN_SIZE SLABHEAP_COUNT_def
        u64_def)
  moreover have "map_sum id (\<lambda>r. (start (fst r), size_r (fst r)))
      (kmem_alloc_aligned kmem_example 1 1) = Inr (0x100018, 8)"
    by (simp add: kmem_alloc_aligned_def kmem_example_def IS_POW2_def usub_def u64_def ALIGN2_def
        PAGE_SIZE_def PAGE_SIZE_BITS_def slab_index_loop_count slabheaps_init_size slabheaps_init_lists slabheap_alloc_def slabheap_grow_def kmem_heapalloc_def
        SLABHEAP_BLOCK_SIZE_def CHUNK_SIZE_def Let_def set_block_cap_len_def store_def
        set_slabheap_def block_recycle_def block_cap_def block_len_def block_next_def
        sizeof_slabblock_def)
  ultimately show ?thesis by simp
qed

lemmas slab_eval = kmem_free_def slabheap_free_def slab_index_loop_count kmem_example_full_def
  slabheaps_init_size slabheaps_init_lists scrub_free_def SLABHEAP_BLOCK_MASK_def
  SLABHEAP_BLOCK_SIZE_def UINTPTR_MAX_def PAGE_SIZE_def PAGE_SIZE_BITS_def Let_def store_def
  set_slabheap_def block_recycle_def block_cap_def block_len_def block_next_def

lemma block_list_3:
  "block_list a h 3 =
     (if h = 0 then []
      else h # (if block_next a h = 0 then []
                else block_next a h #
                  (if block_next a (block_next a h) = 0 then []
                   else [block_next a (block_next a h)])))"
  by (simp add: numeral_eq_Suc)

text \<open>
  C4, evaluated on the state with two full blocks of 64-byte chunks, \<open>0x200000\<close> ahead of
  \<open>0x100000\<close> on the full list: \<open>kmem_free\<close> of a chunk of \<open>0x100000\<close> sets the head of the
  full list to the successor of \<open>0x100000\<close>, so \<open>0x200000\<close> is on neither list afterwards;
  freeing a chunk of \<open>0x200000\<close> next puts \<open>0x100000\<close> back on the full list although it
  has a free chunk.
\<close>

theorem slabheap_free_unlinks_from_head_only:
  "block_list kmem_example_full (usable (slabheaps kmem_example_full 3)) 3 = [] \<and>
   block_list kmem_example_full (full (slabheaps kmem_example_full 3)) 3 = [0x200000, 0x100000] \<and>
   map_sum id (\<lambda>a. (block_list a (usable (slabheaps a 3)) 3, block_list a (full (slabheaps a 3)) 3))
     (kmem_free kmem_example_full \<lparr>start = 0x100040, size_r = 64\<rparr>)
     = Inr ([0x100000], []) \<and>
   map_sum id (\<lambda>a. (block_list a (usable (slabheaps a 3)) 3, block_list a (full (slabheaps a 3)) 3))
     (case kmem_free kmem_example_full \<lparr>start = 0x100040, size_r = 64\<rparr> of
        Inl e \<Rightarrow> Inl e
      | Inr a \<Rightarrow> kmem_free a \<lparr>start = 0x200040, size_r = 64\<rparr>)
     = Inr ([0x200000, 0x100000], [0x100000])"
proof -
  have 1: "block_list kmem_example_full (usable (slabheaps kmem_example_full 3)) 3 = []"
    by (simp add: block_list_3 kmem_example_full_def)
  have 2: "block_list kmem_example_full (full (slabheaps kmem_example_full 3)) 3
             = [0x200000, 0x100000]"
    by (simp add: block_list_3 kmem_example_full_def block_next_def)
  have 3: "map_sum id
      (\<lambda>a. (block_list a (usable (slabheaps a 3)) 3, block_list a (full (slabheaps a 3)) 3))
      (kmem_free kmem_example_full \<lparr>start = 0x100040, size_r = 64\<rparr>) = Inr ([0x100000], [])"
    by (simp add: slab_eval block_list_3)
  have 4: "map_sum id
      (\<lambda>a. (block_list a (usable (slabheaps a 3)) 3, block_list a (full (slabheaps a 3)) 3))
      (case kmem_free kmem_example_full \<lparr>start = 0x100040, size_r = 64\<rparr> of
         Inl e \<Rightarrow> Inl e
       | Inr a \<Rightarrow> kmem_free a \<lparr>start = 0x200040, size_r = 64\<rparr>)
      = Inr ([0x200000, 0x100000], [0x100000])"
    by (simp add: slab_eval block_list_3)
  from 1 2 3 4 show ?thesis by (intro conjI)
qed

end
